theory Spec2Isabelle
  imports Main "HOL-Library.Multiset"
begin

section \<open>Values and the platform\<close>

text \<open>
  The transport layer of the scripting SDK (\<^verbatim>\<open>WebSocketCommunication.ts\<close>) and the design
  loader (\<^verbatim>\<open>DesignUtil.ts\<close>) run on a single-threaded event loop: every socket callback,
  timer callback and API call is one uninterrupted turn. Each method is embedded as a
  function from the state before the turn to the state after it. What a turn does to
  the outside (socket writes, log lines, calls of handlers that were passed in) is
  appended to a trace, so that the order of effects can be stated.
\<close>

datatype json =
    JNull
  | JBool bool
  | JNum int
  | JStr string
  | JArr "json list"
  | JObj "(string \<times> json) list"

text \<open>JavaScript truthiness of a parsed JSON value (\<^verbatim>\<open>if (v)\<close>, \<^verbatim>\<open>!v\<close>).\<close>

fun truthy :: "json \<Rightarrow> bool" where
  "truthy JNull = False"
| "truthy (JBool b) = b"
| "truthy (JNum n) = (n \<noteq> 0)"
| "truthy (JStr s) = (s \<noteq> [])"
| "truthy (JArr xs) = True"
| "truthy (JObj kvs) = True"

text \<open>
  Property access \<^verbatim>\<open>v.k\<close> on a truthy value; \<open>None\<close> is \<^verbatim>\<open>undefined\<close>. A
  \<open>JObj\<close> lists the own properties of the parsed object. None of the keys read by the
  code is a property of a number, string, boolean or array.
\<close>

fun field :: "json \<Rightarrow> string \<Rightarrow> json option" where
  "field (JObj kvs) k = map_of kvs k"
| "field v k = None"

definition truthy_opt :: "json option \<Rightarrow> bool" where
  "truthy_opt v = (case v of None \<Rightarrow> False | Some j \<Rightarrow> truthy j)"

text \<open>
  \<^verbatim>\<open>Map.get(v)\<close> on a map whose keys are strings, for a key \<open>v\<close> read from a frame:
  only a string can be equal to a key.
\<close>

definition map_get :: "(string \<rightharpoonup> 'v) \<Rightarrow> json option \<Rightarrow> 'v option" where
  "map_get m v = (case v of Some (JStr k) \<Rightarrow> m k | _ \<Rightarrow> None)"

definition map_delete :: "(string \<rightharpoonup> 'v) \<Rightarrow> json option \<Rightarrow> (string \<rightharpoonup> 'v)" where
  "map_delete m v = (case v of Some (JStr k) \<Rightarrow> m(k := None) | _ \<Rightarrow> m)"

text \<open>
  What the repository's sources under study do not define: the constants of
  \<^verbatim>\<open>constants.ts\<close> and the platform's \<^verbatim>\<open>JSON.stringify\<close> and \<^verbatim>\<open>JSON.parse\<close>
  (\<open>None\<close>: \<^verbatim>\<open>JSON.parse\<close> throws). They are parameters of the model.
\<close>

record env =
  WS_HEARTBEAT_INTERVAL :: nat
  WS_MISSING_HEARTBEAT_TIMEOUT_MS :: int
  WS_MISSING_HEARTBEAT_TIMEOUT_SEC :: string
  JSON_stringify :: "json \<Rightarrow> string"
  JSON_parse :: "string \<Rightarrow> json option"

datatype ready_state = CONNECTING | OPEN | CLOSING | CLOSED

text \<open>
  A \<^verbatim>\<open>WebSocket\<close> object of the platform. \<^verbatim>\<open>connected()\<close> reads \<open>readyState\<close>
  again before every write, so the model lets the link fail between two writes of one
  turn: \<open>writesLeft = Some n\<close> says that the socket stops being open with the
  \<open>n\<close>-th write from now (or with the next one, when \<open>n\<close> is 0), \<open>None\<close> that
  writing never closes it.
\<close>

record sock =
  readyState :: ready_state
  writesLeft :: "nat option"

text \<open>
  Closures are data. An event handler is either the one \<^verbatim>\<open>onConnect\<close> registers for
  heartbeats or one passed in by a caller, which the model does not look into: calling
  it is recorded in the trace. A result handler is the closure built by
  \<^verbatim>\<open>sendEventWithResponse\<close>; it is determined by the promise it settles.
\<close>

datatype event_handler = HeartbeatStamp | UserHandler nat

datatype outcome = Pending | Resolved json | Rejected "json option"

text \<open>
  The promise of one \<^verbatim>\<open>sendEventWithResponse\<close> call together with the local variable
  \<^verbatim>\<open>timeout\<close> of that call, which the code after \<^verbatim>\<open>await\<close> clears.
\<close>

record request_promise =
  outcome :: outcome
  timeout :: nat

datatype callback =
    ReconnectCb
  | ResponseTimeoutCb string nat
  | HeartbeatCb

datatype timer = Timeout callback nat | Interval callback nat

datatype level = Debug | Info | Warn | Error

datatype effect =
    Send nat string
  | Close nat nat "string option"
  | NewWebSocket nat string
  | Log level string "json option list"
  | ConsoleError
  | Call event_handler json
  | Deliver nat json

section \<open>WebSocketCommunication\<close>

record wsc =
  hostname :: string
  apiKey :: "string option"
  enabledInternal :: bool
  socket :: "nat option"
  reconnectTimeout :: nat
  subscriptionEvents :: "string list"
  disconnectEventBuffer :: "string list"
  eventHandlers :: "string \<rightharpoonup> event_handler"
  eventResultHandlers :: "string \<rightharpoonup> nat"
  heartbeatSendingInterval :: "nat option"
  lastIncomeHeartbeat :: "int option"
  sockets :: "nat \<Rightarrow> sock"
  nextSocket :: nat
  timers :: "nat \<rightharpoonup> timer"
  nextTimer :: nat
  promises :: "nat \<rightharpoonup> request_promise"
  nextPromise :: nat
  trace :: "effect list"

text \<open>
  The fields up to \<open>lastIncomeHeartbeat\<close> are those of the class
  (\<open>enabledInternal\<close> is the flag of its \<^verbatim>\<open>loggerConfig\<close>); the rest is the platform:
  the socket objects, the pending timers and the promises, each with the next fresh
  identifier, and the trace.
\<close>

definition emit :: "effect \<Rightarrow> wsc \<Rightarrow> wsc" where
  "emit e s = s\<lparr>trace := trace s @ [e]\<rparr>"

text \<open>\<^verbatim>\<open>this.loggerConfig.isEnabledInternal() && logger.level(format, args)\<close>\<close>

definition log_internal :: "level \<Rightarrow> string \<Rightarrow> json option list \<Rightarrow> wsc \<Rightarrow> wsc" where
  "log_internal lvl fmt args s = (if enabledInternal s then emit (Log lvl fmt args) s else s)"

subsection \<open>Platform operations\<close>

text \<open>\<^verbatim>\<open>setTimeout\<close> and \<^verbatim>\<open>setInterval\<close> return the identifier \<open>nextTimer s\<close>.\<close>

definition setTimeout :: "callback \<Rightarrow> nat \<Rightarrow> wsc \<Rightarrow> wsc" where
  "setTimeout cb ms s =
     s\<lparr>timers := (timers s)(nextTimer s \<mapsto> Timeout cb ms), nextTimer := Suc (nextTimer s)\<rparr>"

definition setInterval :: "callback \<Rightarrow> nat \<Rightarrow> wsc \<Rightarrow> wsc" where
  "setInterval cb ms s =
     s\<lparr>timers := (timers s)(nextTimer s \<mapsto> Interval cb ms), nextTimer := Suc (nextTimer s)\<rparr>"

definition clearTimeout :: "nat \<Rightarrow> wsc \<Rightarrow> wsc" where
  "clearTimeout t s = s\<lparr>timers := (timers s)(t := None)\<rparr>"

definition clearInterval :: "nat \<Rightarrow> wsc \<Rightarrow> wsc" where
  "clearInterval t s = s\<lparr>timers := (timers s)(t := None)\<rparr>"

text \<open>\<^verbatim>\<open>socket.send(text)\<close> on an open socket.\<close>

definition after_write :: "sock \<Rightarrow> sock" where
  "after_write k =
     (case writesLeft k of
        None \<Rightarrow> k
      | Some n \<Rightarrow> if n \<le> 1 then k\<lparr>readyState := CLOSED, writesLeft := None\<rparr>
                  else k\<lparr>writesLeft := Some (n - 1)\<rparr>)"

definition socket_send :: "nat \<Rightarrow> string \<Rightarrow> wsc \<Rightarrow> wsc" where
  "socket_send w text s =
     emit (Send w text) (s\<lparr>sockets := (sockets s)(w := after_write (sockets s w))\<rparr>)"

text \<open>
  \<^verbatim>\<open>socket.close(code, reason)\<close>: a socket that is connecting or open starts closing,
  one that is closing or closed stays as it is.
\<close>

definition closing :: "sock \<Rightarrow> sock" where
  "closing k =
     (if readyState k = CONNECTING \<or> readyState k = OPEN then k\<lparr>readyState := CLOSING\<rparr> else k)"

definition socket_close :: "nat \<Rightarrow> nat \<Rightarrow> string option \<Rightarrow> wsc \<Rightarrow> wsc" where
  "socket_close w code reason s =
     emit (Close w code reason) (s\<lparr>sockets := (sockets s)(w := closing (sockets s w))\<rparr>)"

text \<open>Settling a promise; a promise that is settled already stays as it is.\<close>

definition reject :: "nat \<Rightarrow> json option \<Rightarrow> wsc \<Rightarrow> wsc" where
  "reject p reason s =
     (case promises s p of
        None \<Rightarrow> s
      | Some r \<Rightarrow> if outcome r = Pending
                  then s\<lparr>promises := (promises s)(p \<mapsto> r\<lparr>outcome := Rejected reason\<rparr>)\<rparr>
                  else s)"

text \<open>
  \<^verbatim>\<open>resolve(response)\<close> resumes \<^verbatim>\<open>sendEventWithResponse\<close> after its \<^verbatim>\<open>await\<close>, which
  runs \<^verbatim>\<open>clearTimeout(timeout)\<close> before the next turn of the event loop. A rejection
  makes the \<^verbatim>\<open>await\<close> throw instead, and the timer is left armed.
\<close>

definition resolve :: "nat \<Rightarrow> json \<Rightarrow> wsc \<Rightarrow> wsc" where
  "resolve p v s =
     (case promises s p of
        None \<Rightarrow> s
      | Some r \<Rightarrow> if outcome r = Pending
                  then clearTimeout (timeout r)
                         (s\<lparr>promises := (promises s)(p \<mapsto> r\<lparr>outcome := Resolved v\<rparr>)\<rparr>)
                  else s)"

subsection \<open>Sending\<close>

definition connected :: "wsc \<Rightarrow> bool" where
  "connected s = (case socket s of None \<Rightarrow> False | Some w \<Rightarrow> readyState (sockets s w) = OPEN)"

definition sendMessageToSocket :: "string \<Rightarrow> bool \<Rightarrow> wsc \<Rightarrow> wsc" where
  "sendMessageToSocket jsonMessage isSubscriptionEvent s =
     (if connected s then
        (let s1 = log_internal Debug ''Sending msg to websocket - message {}''
                    [Some (JStr jsonMessage)] s
         in case socket s1 of None \<Rightarrow> s1 | Some w \<Rightarrow> socket_send w jsonMessage s1)
      else if isSubscriptionEvent then
        log_internal Warn
          ''Websocket is not connected. Subscription event will be sent once websocket connection is established. Event: {}''
          [Some (JStr jsonMessage)] s
      else
        (let s1 = s\<lparr>disconnectEventBuffer := disconnectEventBuffer s @ [jsonMessage]\<rparr>
         in log_internal Warn
              ''Websocket is not connected. Event added into disconnected buffer. Disconnected buffer size:{}. Event: {}''
              [Some (JNum (int (length (disconnectEventBuffer s1)))), Some (JStr jsonMessage)] s1))"

definition sendEvent :: "env \<Rightarrow> json \<Rightarrow> bool \<Rightarrow> wsc \<Rightarrow> wsc" where
  "sendEvent E message isSubscriptionEvent s =
     (let jsonMessage = JSON_stringify E message;
          s1 = (if isSubscriptionEvent
                then (let s0 = log_internal Debug ''Subscription for event: {}''
                                 [Some (JStr jsonMessage)] s
                      in s0\<lparr>subscriptionEvents := subscriptionEvents s0 @ [jsonMessage]\<rparr>)
                else s)
      in sendMessageToSocket jsonMessage isSubscriptionEvent s1)"

text \<open>
  \<^verbatim>\<open>sendEventWithResponse(requestEvent, isSubscriptionEvent)\<close> up to its \<^verbatim>\<open>await\<close>.
  \<open>requestId\<close> is \<^verbatim>\<open>requestEvent.requestId\<close>, a string by the type of the request. The
  promise returned is \<open>nextPromise s\<close>, its timer is \<open>nextTimer s\<close>.
\<close>

definition sendEventWithResponse :: "env \<Rightarrow> string \<Rightarrow> json \<Rightarrow> bool \<Rightarrow> wsc \<Rightarrow> wsc" where
  "sendEventWithResponse E requestId requestEvent isSubscriptionEvent s =
     (let p = nextPromise s;
          s1 = s\<lparr>promises := (promises s)(p \<mapsto> \<lparr>outcome = Pending, timeout = 0\<rparr>),
                 nextPromise := Suc p\<rparr>;
          s2 = s1\<lparr>eventResultHandlers := (eventResultHandlers s1)(requestId \<mapsto> p)\<rparr>;
          t = nextTimer s2;
          s3 = setTimeout (ResponseTimeoutCb requestId p) 60000 s2;
          s4 = s3\<lparr>promises := (promises s3)(p \<mapsto> \<lparr>outcome = Pending, timeout = t\<rparr>)\<rparr>
      in sendEvent E requestEvent isSubscriptionEvent s4)"

text \<open>The callback of the 60 s timer of a request.\<close>

definition response_timeout :: "string \<Rightarrow> nat \<Rightarrow> wsc \<Rightarrow> wsc" where
  "response_timeout requestId p s =
     (if eventResultHandlers s requestId \<noteq> None
      then reject p (Some (JStr ''Response was not obtained in 60s''))
             (s\<lparr>eventResultHandlers := (eventResultHandlers s)(requestId := None)\<rparr>)
      else s)"

text \<open>The result handler stored by \<^verbatim>\<open>sendEventWithResponse\<close>, called with a response.\<close>

definition result_handler :: "nat \<Rightarrow> json \<Rightarrow> wsc \<Rightarrow> wsc" where
  "result_handler p response s =
     (if field response ''state'' \<noteq> Some (JStr ''OK'')
      then reject p (field response ''failReason'') s
      else resolve p response s)"

definition addEventHandler :: "string \<Rightarrow> event_handler \<Rightarrow> wsc \<Rightarrow> wsc" where
  "addEventHandler type onEvent s = s\<lparr>eventHandlers := (eventHandlers s)(type \<mapsto> onEvent)\<rparr>"

definition subscribeToEvent ::
  "env \<Rightarrow> string \<Rightarrow> string \<Rightarrow> int \<Rightarrow> event_handler \<Rightarrow> wsc \<Rightarrow> wsc" where
  "subscribeToEvent E requestType responseType dataEveryMs onEvent s =
     (let s1 = s\<lparr>eventHandlers := (eventHandlers s)(responseType \<mapsto> onEvent)\<rparr>;
          eventSubscription = JObj [(''type'', JStr requestType),
                                    (''dataEveryMs'', JNum dataEveryMs),
                                    (''keepAliveMs'', JNum 0),
                                    (''responseTag'', JStr ''deno-script-api'')]
      in sendEvent E eventSubscription True s1)"

definition subscribeToLiveEvent :: "env \<Rightarrow> string \<Rightarrow> string \<Rightarrow> event_handler \<Rightarrow> wsc \<Rightarrow> wsc" where
  "subscribeToLiveEvent E requestType responseType onEvent s =
     (let s1 = s\<lparr>eventHandlers := (eventHandlers s)(responseType \<mapsto> onEvent)\<rparr>;
          eventSubscription = JObj [(''keepAliveMs'', JNum 0),
                                    (''responseTag'', JStr ''deno-script-api''),
                                    (''type'', JStr requestType)]
      in sendEvent E eventSubscription True s1)"

subsection \<open>Receiving\<close>

text \<open>\<^verbatim>\<open>action(msgEvent)\<close>; \<open>now\<close> is what \<^verbatim>\<open>new Date()\<close> reads during the call.\<close>

definition invoke :: "event_handler \<Rightarrow> json \<Rightarrow> int \<Rightarrow> wsc \<Rightarrow> wsc" where
  "invoke action msgEvent now s =
     (case action of
        HeartbeatStamp \<Rightarrow> s\<lparr>lastIncomeHeartbeat := Some now\<rparr>
      | UserHandler n \<Rightarrow> emit (Call (UserHandler n) msgEvent) s)"

definition processResponse :: "json \<Rightarrow> wsc \<Rightarrow> wsc" where
  "processResponse resultEvent s =
     (let s1 = log_internal Debug ''Process response with ID {}''
                 [field resultEvent ''requestId''] s
      in case map_get (eventResultHandlers s1) (field resultEvent ''requestId'') of
           Some listener \<Rightarrow>
             (let s2 = s1\<lparr>eventResultHandlers :=
                           map_delete (eventResultHandlers s1) (field resultEvent ''requestId'')\<rparr>
              in result_handler listener resultEvent (emit (Deliver listener resultEvent) s2))
         | None \<Rightarrow>
             log_internal Warn
               ''No listener is available for process result event: [object Object]'' [] s1)"

text \<open>
  The listener of the socket's \<^verbatim>\<open>message\<close> event. When \<^verbatim>\<open>JSON.parse\<close> throws, the
  listener ends there and nothing has been changed.
\<close>

definition receiveMessage :: "env \<Rightarrow> string \<Rightarrow> int \<Rightarrow> wsc \<Rightarrow> wsc" where
  "receiveMessage E data now s =
     (case JSON_parse E data of
        None \<Rightarrow> s
      | Some msgEvent \<Rightarrow>
          if \<not> truthy msgEvent then
            emit (Log Error ''Suspicious state! Cannot parse received event: {}''
                    [Some (JStr data)]) s
          else if truthy_opt (field msgEvent ''requestId'') then
            processResponse msgEvent s
          else
            (case map_get (eventHandlers s) (field msgEvent ''type'') of
               Some action \<Rightarrow> invoke action msgEvent now s
             | None \<Rightarrow> s))"

subsection \<open>Heartbeat\<close>

definition stopSentHeartBeat :: "wsc \<Rightarrow> wsc" where
  "stopSentHeartBeat s =
     (case heartbeatSendingInterval s of
        None \<Rightarrow> s
      | Some i \<Rightarrow>
          if i \<noteq> 0
          then (clearInterval i s)\<lparr>heartbeatSendingInterval := None, lastIncomeHeartbeat := None\<rparr>
          else s)"

definition isHeartbeatTimeout :: "env \<Rightarrow> int \<Rightarrow> wsc \<Rightarrow> bool" where
  "isHeartbeatTimeout E now s =
     (case lastIncomeHeartbeat s of
        None \<Rightarrow> False
      | Some lastIncome \<Rightarrow> now - lastIncome > WS_MISSING_HEARTBEAT_TIMEOUT_MS E)"

text \<open>The callback of the interval timer set by \<^verbatim>\<open>startSendHeartBeat\<close>.\<close>

definition heartbeat_tick :: "env \<Rightarrow> int \<Rightarrow> wsc \<Rightarrow> wsc" where
  "heartbeat_tick E now s =
     (let s1 = (if connected s then sendEvent E (JObj [(''type'', JStr ''heartbeat'')]) False s
                else s)
      in if isHeartbeatTimeout E now s1 then
           (let s2 = log_internal Warn ''Close socket due to missing heartbeat'' [] s1
            in case socket s2 of
                 None \<Rightarrow> s2
               | Some w \<Rightarrow> socket_close w 1000 (Some ''Missing heartbeat'') s2)
         else s1)"

definition startSendHeartBeat :: "env \<Rightarrow> int \<Rightarrow> wsc \<Rightarrow> wsc" where
  "startSendHeartBeat E now s =
     (let s1 = stopSentHeartBeat s;
          i = nextTimer s1;
          s2 = (setInterval HeartbeatCb (WS_HEARTBEAT_INTERVAL E) s1)
                 \<lparr>heartbeatSendingInterval := Some i\<rparr>
      in s2\<lparr>lastIncomeHeartbeat := Some now\<rparr>)"

subsection \<open>Connection\<close>

definition getWsUrl :: "env \<Rightarrow> string \<Rightarrow> string option \<Rightarrow> string" where
  "getWsUrl E host key =
     (let apiKeyParam = (case key of
                           None \<Rightarrow> []
                         | Some k \<Rightarrow> if k \<noteq> [] then ''api-key='' @ k @ ''&'' else []);
          hostNameAndPort = host @ '':443''
      in ''wss://'' @ hostNameAndPort @ ''/api/public/ws/control?'' @ apiKeyParam @
         ''label=Script&kill_timeout='' @ WS_MISSING_HEARTBEAT_TIMEOUT_SEC E)"

definition reconnect :: "wsc \<Rightarrow> wsc" where
  "reconnect s = (setTimeout ReconnectCb 1000 s)\<lparr>reconnectTimeout := nextTimer s\<rparr>"

definition disconnect :: "wsc \<Rightarrow> wsc" where
  "disconnect s =
     (case socket s of
        None \<Rightarrow> s
      | Some w \<Rightarrow>
          (let s1 = (stopSentHeartBeat s)\<lparr>socket := None\<rparr>
           in if readyState (sockets s1 w) = OPEN \<or> readyState (sockets s1 w) = CONNECTING
              then socket_close w 1000 None (log_internal Debug ''Closing socket'' [] s1)
              else s1))"

text \<open>
  \<^verbatim>\<open>connect()\<close>. \<open>ctor\<close> tells whether \<^verbatim>\<open>new WebSocket(url)\<close> returns a socket
  (it starts connecting) or throws. The four listeners added to the new socket are the
  functions \<open>on_open\<close>, \<open>receiveMessage\<close>, \<open>onDisconnect\<close> and \<open>on_error\<close> below.
\<close>

definition connect :: "env \<Rightarrow> bool \<Rightarrow> wsc \<Rightarrow> wsc" where
  "connect E ctor s =
     (let s1 = clearTimeout (reconnectTimeout s) s
      in if socket s1 \<noteq> None then s1
         else
           (let url = getWsUrl E (hostname s1) (apiKey s1)
            in if ctor then
                 (let w = nextSocket s1;
                      s2 = emit (NewWebSocket w url)
                             (s1\<lparr>sockets := (sockets s1)
                                               (w := \<lparr>readyState = CONNECTING, writesLeft = None\<rparr>),
                                   nextSocket := Suc w\<rparr>);
                      s3 = log_internal Info ''Connecting to websocket'' [] s2
                  in s3\<lparr>socket := Some w\<rparr>)
               else
                 reconnect
                   (emit ConsoleError
                      (log_internal Error ''Connecting to websocket failed.'' [] s1))))"

text \<open>The callback of the timer set by \<^verbatim>\<open>reconnect()\<close>.\<close>

definition reconnect_fire :: "env \<Rightarrow> bool \<Rightarrow> wsc \<Rightarrow> wsc" where
  "reconnect_fire E ctor s = connect E ctor (disconnect s)"

definition onDisconnect :: "nat \<Rightarrow> wsc \<Rightarrow> wsc" where
  "onDisconnect w s =
     (if socket s \<noteq> Some w then s
      else reconnect (log_internal Info ''Websocket disconnected'' [] s))"

text \<open>
  The listener of the \<^verbatim>\<open>error\<close> event; \<open>message\<close> is \<^verbatim>\<open>e.message\<close> when the event
  is an \<^verbatim>\<open>ErrorEvent\<close>.
\<close>

definition on_error :: "string option \<Rightarrow> wsc \<Rightarrow> wsc" where
  "on_error message s =
     reconnect
       (log_internal Warn ''{} - trying to reconnect.''
          [Some (JStr (case message of Some m \<Rightarrow> m | None \<Rightarrow> ''WebSocket error''))] s)"

text \<open>
  \<^verbatim>\<open>onConnect()\<close>, line by line: the replay of the subscriptions, the swap and flush
  of the disconnect buffer, the heartbeat.
\<close>

definition replaySubscriptions :: "wsc \<Rightarrow> wsc" where
  "replaySubscriptions s =
     fold (\<lambda>json. sendMessageToSocket json True) (subscriptionEvents s) s"

definition flushDisconnectBuffer :: "wsc \<Rightarrow> wsc" where
  "flushDisconnectBuffer s =
     (let buffer = disconnectEventBuffer s;
          s1 = s\<lparr>disconnectEventBuffer := []\<rparr>
      in fold (\<lambda>json. sendMessageToSocket json False) buffer s1)"

definition onConnect :: "env \<Rightarrow> int \<Rightarrow> wsc \<Rightarrow> wsc" where
  "onConnect E now s =
     addEventHandler ''heartbeat'' HeartbeatStamp
       (startSendHeartBeat E now (flushDisconnectBuffer (replaySubscriptions s)))"

text \<open>The listener of the \<^verbatim>\<open>open\<close> event.\<close>

definition on_open :: "env \<Rightarrow> int \<Rightarrow> wsc \<Rightarrow> wsc" where
  "on_open E now s = onConnect E now (log_internal Info ''Websocket connected'' [] s)"

text \<open>The constructor: the initial fields, then \<^verbatim>\<open>connect()\<close>.\<close>

definition initial :: "string \<Rightarrow> string option \<Rightarrow> bool \<Rightarrow> wsc" where
  "initial host key logging =
     \<lparr>hostname = host, apiKey = key, enabledInternal = logging,
      socket = None, reconnectTimeout = 0,
      subscriptionEvents = [], disconnectEventBuffer = [],
      eventHandlers = Map.empty, eventResultHandlers = Map.empty,
      heartbeatSendingInterval = None, lastIncomeHeartbeat = None,
      sockets = (\<lambda>w. \<lparr>readyState = CLOSED, writesLeft = None\<rparr>), nextSocket = 0,
      timers = Map.empty, nextTimer = 1,
      promises = Map.empty, nextPromise = 0,
      trace = []\<rparr>"

definition new_WebSocketCommunication ::
  "env \<Rightarrow> bool \<Rightarrow> string \<Rightarrow> string option \<Rightarrow> bool \<Rightarrow> wsc" where
  "new_WebSocketCommunication E ctor host key logging = connect E ctor (initial host key logging)"

section \<open>DesignUtil\<close>

datatype LoadDesignState = NONE | DONE | LOADING | ERROR

record ANpdConfig =
  config_type :: string
  config_rest :: json

record DrawflowNode =
  node_type :: string
  node_name :: string
  node_id :: int

text \<open>
  A design as the device sends it; the two objects are listed in property order
  (\<open>drawflow_Home_data\<close> is \<^verbatim>\<open>drawflow.Home.data\<close>).
\<close>

record DspDesign =
  drawflow_Home_data :: "(string \<times> DrawflowNode) list"
  design_metadata :: json
  design_runtime :: "(string \<times> ANpdConfig) list"

record PartialDesign =
  metadata :: json
  runtime :: "string \<rightharpoonup> ANpdConfig"
  nameToId :: "string \<rightharpoonup> int"

text \<open>
  What a turn of the loader does to the outside: \<open>Fetch c\<close>, the call \<open>c\<close> of
  \<^verbatim>\<open>loadDesignInternal\<close> has called \<^verbatim>\<open>RetryUtil.runAsync\<close> with the design load
  request (which repeats the request, one attempt after the other, until one is
  answered); \<open>Settled c st\<close>, the promise of the call \<open>c\<close> has been resolved, which
  carries no value, while the loader was in state \<open>st\<close>; \<open>LogError\<close>, the error line
  of \<^verbatim>\<open>loadDesign\<close>.
\<close>

datatype design_effect = Fetch nat | Settled nat LoadDesignState | LogError

text \<open>
  The fields of \<^verbatim>\<open>DesignHelper\<close> and the trace. A completion callback is the closure
  that resolves the promise of the waiting call, so it is that call's number.
\<close>

record DesignHelper =
  partialDesign :: "PartialDesign option"
  timestamp :: int
  state :: LoadDesignState
  loadFinishConsumers :: "nat list"
  loaderIdentifier :: "string option"
  happened :: "design_effect list"

definition new_DesignHelper :: DesignHelper where
  "new_DesignHelper =
     \<lparr>partialDesign = None, timestamp = 0, state = NONE, loadFinishConsumers = [],
      loaderIdentifier = None, happened = []\<rparr>"

definition DESIRED_COMPONENT_TYPES :: "string list" where
  "DESIRED_COMPONENT_TYPES = [''gain'', ''net_rx'', ''net_tx'', ''ducker'']"

definition mark :: "design_effect \<Rightarrow> DesignHelper \<Rightarrow> DesignHelper" where
  "mark e d = d\<lparr>happened := happened d @ [e]\<rparr>"

definition notifyAllDesignConsumers :: "DesignHelper \<Rightarrow> DesignHelper" where
  "notifyAllDesignConsumers d =
     (fold (\<lambda>consumer d'. mark (Settled consumer (state d')) d') (loadFinishConsumers d) d)
       \<lparr>loadFinishConsumers := []\<rparr>"

text \<open>
  \<^verbatim>\<open>loadDesignInternal(identifier)\<close>, called as call number \<open>c\<close>, up to its
  \<^verbatim>\<open>await\<close>: either the call waits for the loader that is at work, or it becomes the
  loader and starts the remote fetch.
\<close>

definition loadDesignInternal_begin :: "string \<Rightarrow> nat \<Rightarrow> DesignHelper \<Rightarrow> DesignHelper" where
  "loadDesignInternal_begin identifier c d =
     (if state d = LOADING \<and> loaderIdentifier d \<noteq> Some identifier then
        (if state d = LOADING
         then d\<lparr>loadFinishConsumers := loadFinishConsumers d @ [c]\<rparr>
         else mark (Settled c (state d)) d)
      else
        mark (Fetch c) (d\<lparr>state := LOADING, loaderIdentifier := Some identifier\<rparr>))"

text \<open>
  The rest of the loader's call \<open>c\<close>, run when the fetch has returned the event:
  \<open>data\<close> is its \<^verbatim>\<open>data\<close> field (\<open>None\<close> when falsy), \<open>now\<close> is \<^verbatim>\<open>Date.now()\<close>.
\<close>

definition loadDesignInternal_resume ::
  "nat \<Rightarrow> DspDesign option \<Rightarrow> int \<Rightarrow> DesignHelper \<Rightarrow> DesignHelper" where
  "loadDesignInternal_resume c data now d =
     (case data of
        None \<Rightarrow>
          (let d1 = notifyAllDesignConsumers (d\<lparr>state := ERROR\<rparr>)
           in mark (Settled c (state d1)) d1)
      | Some dspDesign \<Rightarrow>
          (let rt = fold (\<lambda>(key, config) m. m(key \<mapsto> config))
                      (filter (\<lambda>entry. config_type (snd entry) \<in> set DESIRED_COMPONENT_TYPES)
                         (design_runtime dspDesign))
                      Map.empty;
               nameToIdMap = fold (\<lambda>node m. m(node_name node \<mapsto> node_id node))
                      (filter (\<lambda>entry. node_type entry \<in> set DESIRED_COMPONENT_TYPES)
                         (map snd (drawflow_Home_data dspDesign)))
                      Map.empty;
               d1 = d\<lparr>partialDesign :=
                        Some \<lparr>metadata = design_metadata dspDesign, runtime = rt,
                              nameToId = nameToIdMap\<rparr>\<rparr>;
               d2 = d1\<lparr>timestamp := now\<rparr>;
               d3 = d2\<lparr>state := DONE\<rparr>;
               d4 = notifyAllDesignConsumers d3
           in mark (Settled c (state d4)) d4))"

text \<open>
  \<^verbatim>\<open>loadDesign()\<close>: \<open>identifier\<close> is what \<^verbatim>\<open>getIdentifier()\<close> returns for this call.
  \<open>loadDesign_failed\<close> is its \<^verbatim>\<open>catch\<close> block, run when the body of
  \<^verbatim>\<open>loadDesignInternal\<close> has thrown; the error is thrown on to the caller.
\<close>

definition loadDesign :: "string \<Rightarrow> nat \<Rightarrow> DesignHelper \<Rightarrow> DesignHelper" where
  "loadDesign identifier c d = loadDesignInternal_begin identifier c d"

definition loadDesign_failed :: "DesignHelper \<Rightarrow> DesignHelper" where
  "loadDesign_failed d = notifyAllDesignConsumers (mark LogError d)"

text \<open>
  The handler \<^verbatim>\<open>initDesign\<close> registers for \<^verbatim>\<open>designChangeNotify\<close>: the snapshot is
  dropped and a load is started.
\<close>

definition designChangeNotify :: "string \<Rightarrow> nat \<Rightarrow> DesignHelper \<Rightarrow> DesignHelper" where
  "designChangeNotify identifier c d =
     loadDesign identifier c (d\<lparr>partialDesign := None, state := NONE\<rparr>)"

text \<open>Several calls of \<^verbatim>\<open>loadDesign\<close>, one after the other, each with its identifier.\<close>

definition loadDesign_calls :: "(string \<times> nat) list \<Rightarrow> DesignHelper \<Rightarrow> DesignHelper" where
  "loadDesign_calls calls d = fold (\<lambda>(identifier, c). loadDesign identifier c) calls d"

definition fetches :: "design_effect list \<Rightarrow> nat list" where
  "fetches es = [c. Fetch c \<leftarrow> es]"

text \<open>
  The calls whose promise has been settled, and the fetches in flight: those started
  by a call of \<^verbatim>\<open>loadDesignInternal\<close> that has not yet run to its end.
\<close>

definition settled :: "design_effect list \<Rightarrow> nat list" where
  "settled es = [c. Settled c st \<leftarrow> es]"

definition in_flight :: "design_effect list \<Rightarrow> nat list" where
  "in_flight es = filter (\<lambda>c. c \<notin> set (settled es)) (fetches es)"

section \<open>Reading the trace\<close>

fun is_log :: "effect \<Rightarrow> bool" where
  "is_log (Log lvl fmt args) = True"
| "is_log e = False"

text \<open>The result handlers called between two states, with the response passed to each.\<close>

definition delivered :: "wsc \<Rightarrow> wsc \<Rightarrow> (nat \<times> json) list" where
  "delivered s s' = [(p, r). Deliver p r \<leftarrow> drop (length (trace s)) (trace s')]"

text \<open>The socket writes in a piece of trace, each with the socket written to.\<close>

definition sends :: "effect list \<Rightarrow> (nat \<times> string) list" where
  "sends es = [(w, m). Send w m \<leftarrow> es]"

text \<open>The socket writes between two states.\<close>

definition written :: "wsc \<Rightarrow> wsc \<Rightarrow> (nat \<times> string) list" where
  "written s s' = sends (drop (length (trace s)) (trace s'))"

text \<open>
  The client owns socket \<open>w\<close>, the socket is open and writing to it does not close
  it: the state during a turn that follows a successful connect.
\<close>

definition link_up :: "nat \<Rightarrow> wsc \<Rightarrow> bool" where
  "link_up w s = (socket s = Some w \<and> readyState (sockets s w) = OPEN \<and> writesLeft (sockets s w) = None)"

section \<open>Calls and moves used in the statements\<close>

text \<open>
  The two ways to subscribe, \<^verbatim>\<open>subscribeToEvent\<close> and \<^verbatim>\<open>subscribeToLiveEvent\<close>, as
  one call under a given response type; \<open>payload\<close> is the text such a call appends
  to the registry and \<open>handler_of\<close> the handler it registers.
\<close>

datatype subscription = Poll string int event_handler | Live string event_handler

definition subscribe :: "env \<Rightarrow> string \<Rightarrow> subscription \<Rightarrow> wsc \<Rightarrow> wsc" where
  "subscribe E responseType call s =
     (case call of
        Poll requestType dataEveryMs onEvent \<Rightarrow>
          subscribeToEvent E requestType responseType dataEveryMs onEvent s
      | Live requestType onEvent \<Rightarrow>
          subscribeToLiveEvent E requestType responseType onEvent s)"

fun payload :: "env \<Rightarrow> subscription \<Rightarrow> string" where
  "payload E (Poll requestType dataEveryMs onEvent) =
     JSON_stringify E (JObj [(''type'', JStr requestType), (''dataEveryMs'', JNum dataEveryMs),
                             (''keepAliveMs'', JNum 0), (''responseTag'', JStr ''deno-script-api'')])"
| "payload E (Live requestType onEvent) =
     JSON_stringify E (JObj [(''keepAliveMs'', JNum 0), (''responseTag'', JStr ''deno-script-api''),
                             (''type'', JStr requestType)])"

fun handler_of :: "subscription \<Rightarrow> event_handler" where
  "handler_of (Poll requestType dataEveryMs onEvent) = onEvent"
| "handler_of (Live requestType onEvent) = onEvent"

text \<open>Moves of the platform on a socket object, outside any listener.\<close>

definition platform_open :: "nat \<Rightarrow> wsc \<Rightarrow> wsc" where
  "platform_open w s = s\<lparr>sockets := (sockets s)(w := (sockets s w)\<lparr>readyState := OPEN\<rparr>)\<rparr>"

definition platform_closed :: "nat \<Rightarrow> wsc \<Rightarrow> wsc" where
  "platform_closed w s = s\<lparr>sockets := (sockets s)(w := (sockets s w)\<lparr>readyState := CLOSED\<rparr>)\<rparr>"

definition platform_flaky :: "nat \<Rightarrow> nat \<Rightarrow> wsc \<Rightarrow> wsc" where
  "platform_flaky w n s = s\<lparr>sockets := (sockets s)(w := (sockets s w)\<lparr>writesLeft := Some n\<rparr>)\<rparr>"

section \<open>Turns of the event loop\<close>

text \<open>
  One turn of the event loop as seen by the client: an event of a socket it created,
  a timer that fires, or a call of its public interface. The platform removes a
  timeout from the pending timers before it runs the callback and keeps an interval;
  a timer that is no longer pending does not fire. \<open>now\<close> is the clock during the
  turn and \<open>ctor\<close> tells whether \<^verbatim>\<open>new WebSocket\<close> would succeed in it.
\<close>

datatype event =
    SocketOpen nat int
  | SocketMessage nat string int
  | SocketClose nat
  | SocketError nat "string option"
  | TimerFires nat int bool
  | CallSendEvent json bool
  | CallSendEventWithResponse string json bool
  | CallAddEventHandler string event_handler
  | CallSubscribe string subscription

definition run_callback :: "env \<Rightarrow> callback \<Rightarrow> int \<Rightarrow> bool \<Rightarrow> wsc \<Rightarrow> wsc" where
  "run_callback E cb now ctor s =
     (case cb of
        ReconnectCb \<Rightarrow> reconnect_fire E ctor s
      | ResponseTimeoutCb requestId p \<Rightarrow> response_timeout requestId p s
      | HeartbeatCb \<Rightarrow> heartbeat_tick E now s)"

definition step :: "env \<Rightarrow> event \<Rightarrow> wsc \<Rightarrow> wsc" where
  "step E ev s =
     (case ev of
        SocketOpen w now \<Rightarrow> on_open E now (platform_open w s)
      | SocketMessage w data now \<Rightarrow> receiveMessage E data now s
      | SocketClose w \<Rightarrow> onDisconnect w (platform_closed w s)
      | SocketError w message \<Rightarrow> on_error message s
      | TimerFires t now ctor \<Rightarrow>
          (case timers s t of
             None \<Rightarrow> s
           | Some (Timeout cb ms) \<Rightarrow> run_callback E cb now ctor (clearTimeout t s)
           | Some (Interval cb ms) \<Rightarrow> run_callback E cb now ctor s)
      | CallSendEvent message isSubscriptionEvent \<Rightarrow> sendEvent E message isSubscriptionEvent s
      | CallSendEventWithResponse requestId requestEvent isSubscriptionEvent \<Rightarrow>
          sendEventWithResponse E requestId requestEvent isSubscriptionEvent s
      | CallAddEventHandler type onEvent \<Rightarrow> addEventHandler type onEvent s
      | CallSubscribe responseType call \<Rightarrow> subscribe E responseType call s)"

text \<open>What a piece of trace shows apart from log lines.\<close>

definition unlogged :: "effect list \<Rightarrow> effect list" where
  "unlogged es = filter (\<lambda>e. \<not> is_log e) es"

definition heartbeat_event :: json where
  "heartbeat_event = JObj [(''type'', JStr ''heartbeat'')]"

fun callback_of :: "timer \<Rightarrow> callback" where
  "callback_of (Timeout cb ms) = cb"
| "callback_of (Interval cb ms) = cb"

text \<open>
  The request \<open>requestId\<close> with promise \<open>p\<close> and timer \<open>t\<close> is pending: its handler is
  registered, its promise is unsettled and its timer is armed, and nothing else in
  the state refers to the promise or the timer.
\<close>

definition pending_request :: "string \<Rightarrow> nat \<Rightarrow> nat \<Rightarrow> wsc \<Rightarrow> bool" where
  "pending_request requestId p t s =
     (eventResultHandlers s requestId = Some p \<and>
      promises s p = Some \<lparr>outcome = Pending, timeout = t\<rparr> \<and>
      timers s t = Some (Timeout (ResponseTimeoutCb requestId p) 60000) \<and>
      t < nextTimer s \<and> p < nextPromise s \<and>
      reconnectTimeout s \<noteq> t \<and> heartbeatSendingInterval s \<noteq> Some t \<and>
      (\<forall>q r. q \<noteq> p \<longrightarrow> promises s q = Some r \<longrightarrow> timeout r \<noteq> t) \<and>
      (\<forall>k. k \<noteq> requestId \<longrightarrow> eventResultHandlers s k \<noteq> Some p) \<and>
      (\<forall>t' x rid' p'. t' \<noteq> t \<longrightarrow> timers s t' = Some x \<longrightarrow>
           callback_of x = ResponseTimeoutCb rid' p' \<longrightarrow> rid' \<noteq> requestId \<and> p' \<noteq> p))"

text \<open>
  The identifiers stored in the state were handed out before: they are below the
  next fresh ones.
\<close>

definition ids_issued :: "wsc \<Rightarrow> bool" where
  "ids_issued s =
     (reconnectTimeout s < nextTimer s \<and>
      (\<forall>i. heartbeatSendingInterval s = Some i \<longrightarrow> i < nextTimer s) \<and>
      (\<forall>q r. promises s q = Some r \<longrightarrow> timeout r < nextTimer s) \<and>
      (\<forall>k q. eventResultHandlers s k = Some q \<longrightarrow> q < nextPromise s) \<and>
      (\<forall>t x. timers s t = Some x \<longrightarrow> t < nextTimer s) \<and>
      (\<forall>t x rid p. timers s t = Some x \<longrightarrow> callback_of x = ResponseTimeoutCb rid p \<longrightarrow>
           p < nextPromise s))"

text \<open>No timer of an earlier request under \<open>requestId\<close> is still pending.\<close>

definition unused_id :: "string \<Rightarrow> wsc \<Rightarrow> bool" where
  "unused_id requestId s =
     (\<forall>t x p. timers s t = Some x \<longrightarrow> callback_of x \<noteq> ResponseTimeoutCb requestId p)"

text \<open>
  The events that end the wait of that request: a response frame with its
  identifier, its timer, and a new request under the same identifier.
\<close>

definition concerns :: "env \<Rightarrow> string \<Rightarrow> nat \<Rightarrow> event \<Rightarrow> bool" where
  "concerns E requestId t ev =
     (case ev of
        SocketMessage w data now \<Rightarrow>
          (case JSON_parse E data of
             None \<Rightarrow> False
           | Some frame \<Rightarrow> truthy frame \<and> field frame ''requestId'' = Some (JStr requestId))
      | TimerFires t' now ctor \<Rightarrow> t' = t
      | CallSendEventWithResponse rid requestEvent isSubscriptionEvent \<Rightarrow> rid = requestId
      | _ \<Rightarrow> False)"

section \<open>Example inputs\<close>

text \<open>
  The examples need a concrete platform. \<open>example_env\<close> serializes and parses the few
  frames listed in \<open>example_frames\<close> (their wire text is written here without the
  double quotes of JSON); the constants are sample values.
\<close>

definition example_frames :: "(string \<times> json) list" where
  "example_frames =
     [(''{type:heartbeat}'', JObj [(''type'', JStr ''heartbeat'')]),
      (''{type:X,requestId:r1}'', JObj [(''type'', JStr ''X''), (''requestId'', JStr ''r1'')]),
      (''{type:Xresult,requestId:r1,state:OK,value:42}'',
         JObj [(''type'', JStr ''Xresult''), (''requestId'', JStr ''r1''),
               (''state'', JStr ''OK''), (''value'', JNum 42)]),
      (''{type:note}'', JObj [(''type'', JStr ''note'')]),
      (''{keepAliveMs:0,responseTag:deno-script-api,type:noteSubscriptionRequest}'',
         JObj [(''keepAliveMs'', JNum 0), (''responseTag'', JStr ''deno-script-api''),
               (''type'', JStr ''noteSubscriptionRequest'')])]"

definition example_env :: env where
  "example_env =
     \<lparr>WS_HEARTBEAT_INTERVAL = 5000,
      WS_MISSING_HEARTBEAT_TIMEOUT_MS = 15000,
      WS_MISSING_HEARTBEAT_TIMEOUT_SEC = ''15'',
      JSON_stringify = (\<lambda>j. case find (\<lambda>(t, v). v = j) example_frames of
                                Some (t, v) \<Rightarrow> t | None \<Rightarrow> []),
      JSON_parse = map_of example_frames\<rparr>"

definition request_r1 :: json where
  "request_r1 = JObj [(''type'', JStr ''X''), (''requestId'', JStr ''r1'')]"

definition response_r1 :: json where
  "response_r1 = JObj [(''type'', JStr ''Xresult''), (''requestId'', JStr ''r1''),
                       (''state'', JStr ''OK''), (''value'', JNum 42)]"

text \<open>A client just constructed, and the same client after one request was issued.\<close>

definition fresh_client :: wsc where
  "fresh_client = new_WebSocketCommunication example_env True ''device'' None False"

definition awaiting_r1 :: wsc where
  "awaiting_r1 = sendEventWithResponse example_env ''r1'' request_r1 False fresh_client"

definition example_design :: DspDesign where
  "example_design =
     \<lparr>drawflow_Home_data =
        [(''1'', \<lparr>node_type = ''gain'', node_name = ''Main gain'', node_id = 1\<rparr>),
         (''2'', \<lparr>node_type = ''mixer'', node_name = ''Mixer'', node_id = 2\<rparr>)],
      design_metadata = JObj [(''name'', JStr ''demo'')],
      design_runtime =
        [(''1'', \<lparr>config_type = ''gain'', config_rest = JObj [(''gain'', JNum 0)]\<rparr>),
         (''2'', \<lparr>config_type = ''mixer'', config_rest = JObj []\<rparr>)]\<rparr>"

text \<open>A loader at work: call 1 of \<^verbatim>\<open>loadDesign\<close> on a new helper.\<close>

definition loading_ab12 :: DesignHelper where
  "loading_ab12 = loadDesign ''1700000000000_ab12'' 1 new_DesignHelper"

text \<open>
  A client that, before its socket opened, subscribed once and was given two
  messages to send; the same client at the moment the socket has opened; and the
  latter on a link that fails after two writes.
\<close>

definition note_event :: json where
  "note_event = JObj [(''type'', JStr ''note'')]"

definition offline_backlog :: wsc where
  "offline_backlog =
     sendEvent example_env note_event False
       (sendEvent example_env request_r1 False
          (subscribeToLiveEvent example_env ''noteSubscriptionRequest'' ''note'' (UserHandler 7)
             fresh_client))"

definition backlog_ready :: wsc where
  "backlog_ready = platform_open 0 offline_backlog"

definition online_client :: wsc where
  "online_client = platform_open 0 fresh_client"

definition backlog_flaky :: wsc where
  "backlog_flaky = platform_flaky 0 2 backlog_ready"

definition beating :: wsc where
  "beating = step example_env (SocketOpen 0 0) fresh_client"

text \<open>
  A client whose first socket never connected and was replaced: the socket reported
  an error, the reconnect timer fired and closed it, and the second socket has
  opened.
\<close>

definition replaced :: wsc where
  "replaced =
     fold (step example_env)
       [SocketError 0 None, TimerFires 1 1000 True, SocketOpen 1 1100] fresh_client"

section \<open>Properties of the transport\<close>

lemmas ws_defs = new_WebSocketCommunication_def initial_def connect_def clearTimeout_def
  getWsUrl_def emit_def log_internal_def sendEventWithResponse_def setTimeout_def sendEvent_def
  sendMessageToSocket_def connected_def socket_send_def after_write_def receiveMessage_def
  processResponse_def map_get_def map_delete_def result_handler_def reject_def resolve_def
  truthy_opt_def Let_def

lemmas example_defs = example_env_def example_frames_def request_r1_def response_r1_def
  fresh_client_def awaiting_r1_def

subsection \<open>Responses\<close>

lemma receiveMessage_response:
  assumes "JSON_parse E data = Some frame" "truthy frame" "truthy_opt (field frame ''requestId'')"
  shows "receiveMessage E data now s = processResponse frame s"
  using assms by (simp add: receiveMessage_def)

lemma map_get_delete: "map_get (map_delete m v) v = None"
  by (simp add: map_get_def map_delete_def split: option.splits json.splits)

lemma processResponse_unknown:
  assumes "map_get (eventResultHandlers s) (field frame ''requestId'') = None"
  shows "processResponse frame s = s\<lparr>trace := trace (processResponse frame s)\<rparr>"
    and "\<exists>logs. trace (processResponse frame s) = trace s @ logs \<and> list_all is_log logs"
    and "delivered s (processResponse frame s) = []"
  using assms
  by (simp_all add: processResponse_def log_internal_def emit_def Let_def delivered_def)

lemma result_handler_fields:
  "eventResultHandlers (result_handler p r s) = eventResultHandlers s"
  "trace (result_handler p r s) = trace s"
  "q \<noteq> p \<Longrightarrow> promises (result_handler p r s) q = promises s q"
  by (simp_all add: result_handler_def reject_def resolve_def clearTimeout_def
      split: option.splits)

lemma result_handler_outcome:
  assumes "promises s p = Some r" and "outcome r = Pending"
  shows "map_option outcome (promises (result_handler p response s) p) =
           Some (if field response ''state'' = Some (JStr ''OK'') then Resolved response
                 else Rejected (field response ''failReason''))"
  using assms by (simp add: result_handler_def reject_def resolve_def clearTimeout_def)

lemma processResponse_known:
  assumes "map_get (eventResultHandlers s) (field frame ''requestId'') = Some p"
  shows "eventResultHandlers (processResponse frame s) =
           map_delete (eventResultHandlers s) (field frame ''requestId'')"
    and "delivered s (processResponse frame s) = [(p, frame)]"
    and "q \<noteq> p \<Longrightarrow> promises (processResponse frame s) q = promises s q"
    and "\<exists>s2. map_get (eventResultHandlers s2) (field frame ''requestId'') = None \<and>
           processResponse frame s = result_handler p frame (emit (Deliver p frame) s2)"
    and "promises s p = Some r \<Longrightarrow> outcome r = Pending \<Longrightarrow>
           map_option outcome (promises (processResponse frame s) p) =
             Some (if field frame ''state'' = Some (JStr ''OK'') then Resolved frame
                   else Rejected (field frame ''failReason''))"
proof -
  let ?s1 = "log_internal Debug ''Process response with ID {}'' [field frame ''requestId''] s"
  let ?s2 = "?s1\<lparr>eventResultHandlers :=
                   map_delete (eventResultHandlers ?s1) (field frame ''requestId'')\<rparr>"
  have run: "processResponse frame s = result_handler p frame (emit (Deliver p frame) ?s2)"
    using assms by (simp add: processResponse_def log_internal_def emit_def Let_def)
  show "eventResultHandlers (processResponse frame s) =
           map_delete (eventResultHandlers s) (field frame ''requestId'')"
    by (simp add: run result_handler_fields log_internal_def emit_def)
  show "delivered s (processResponse frame s) = [(p, frame)]"
    by (simp add: run result_handler_fields log_internal_def emit_def delivered_def)
  show "q \<noteq> p \<Longrightarrow> promises (processResponse frame s) q = promises s q"
    by (simp add: run result_handler_fields log_internal_def emit_def)
  have "map_get (eventResultHandlers ?s2) (field frame ''requestId'') = None"
    by (simp add: map_get_delete)
  with run show "\<exists>s2. map_get (eventResultHandlers s2) (field frame ''requestId'') = None \<and>
      processResponse frame s = result_handler p frame (emit (Deliver p frame) s2)"
    by blast
  show "promises s p = Some r \<Longrightarrow> outcome r = Pending \<Longrightarrow>
           map_option outcome (promises (processResponse frame s) p) =
             Some (if field frame ''state'' = Some (JStr ''OK'') then Resolved frame
                   else Rejected (field frame ''failReason''))"
    by (simp only: run, rule result_handler_outcome)
       (simp_all add: log_internal_def emit_def)
qed

text \<open>
  C1. Let a frame be received that parses to a truthy value with a truthy
  \<^verbatim>\<open>requestId\<close>. If a handler \<open>p\<close> is registered under that identifier, then exactly
  that entry leaves the pending map, the handler is called once and with this frame,
  it runs in a state from which its entry is already gone, a pending promise \<open>p\<close> is
  settled (resolved with the frame when its state is OK, rejected with its failReason
  otherwise), no other promise changes, and receiving the same frame again calls no
  handler and changes no promise. If no handler is registered under the identifier,
  the state stays as it was except that log lines (and nothing else) are added to the
  trace.
\<close>

theorem response_resolved_once:
  assumes "JSON_parse E data = Some frame" and "truthy frame"
    and "truthy_opt (field frame ''requestId'')"
  shows "case map_get (eventResultHandlers s) (field frame ''requestId'') of
           Some p \<Rightarrow>
             eventResultHandlers (receiveMessage E data now s) =
               map_delete (eventResultHandlers s) (field frame ''requestId'') \<and>
             delivered s (receiveMessage E data now s) = [(p, frame)] \<and>
             (\<exists>s2. map_get (eventResultHandlers s2) (field frame ''requestId'') = None \<and>
                   receiveMessage E data now s =
                     result_handler p frame (emit (Deliver p frame) s2)) \<and>
             (\<forall>r. promises s p = Some r \<and> outcome r = Pending \<longrightarrow>
                   map_option outcome (promises (receiveMessage E data now s) p) =
                     Some (if field frame ''state'' = Some (JStr ''OK'') then Resolved frame
                           else Rejected (field frame ''failReason''))) \<and>
             (\<forall>q. q \<noteq> p \<longrightarrow> promises (receiveMessage E data now s) q = promises s q) \<and>
             delivered (receiveMessage E data now s)
               (receiveMessage E data later (receiveMessage E data now s)) = [] \<and>
             promises (receiveMessage E data later (receiveMessage E data now s)) =
               promises (receiveMessage E data now s)
         | None \<Rightarrow>
             receiveMessage E data now s = s\<lparr>trace := trace (receiveMessage E data now s)\<rparr> \<and>
             (\<exists>logs. trace (receiveMessage E data now s) = trace s @ logs \<and>
                     list_all is_log logs) \<and>
             delivered s (receiveMessage E data now s) = []"
proof (cases "map_get (eventResultHandlers s) (field frame ''requestId'')")
  case None
  then show ?thesis
    using processResponse_unknown[of s frame]
    by (simp add: receiveMessage_response[OF assms])
next
  case (Some p)
  let ?s' = "processResponse frame s"
  have gone: "map_get (eventResultHandlers ?s') (field frame ''requestId'') = None"
    using processResponse_known(1)[OF Some] by (simp add: map_get_delete)
  have again: "processResponse frame ?s' = ?s'\<lparr>trace := trace (processResponse frame ?s')\<rparr>"
    using processResponse_unknown(1)[OF gone] .
  have "promises (processResponse frame ?s') = promises ?s'"
    by (subst again) simp
  then show ?thesis
    using Some processResponse_known[OF Some] processResponse_unknown(3)[OF gone]
    by (simp add: receiveMessage_response[OF assms])
qed

theorem response_resolved_once_witness:
  "JSON_parse example_env ''{type:Xresult,requestId:r1,state:OK,value:42}'' = Some response_r1 \<and>
   truthy response_r1 \<and>
   truthy_opt (field response_r1 ''requestId'') \<and>
   eventResultHandlers awaiting_r1 ''r1'' = Some 0 \<and>
   eventResultHandlers
     (receiveMessage example_env ''{type:Xresult,requestId:r1,state:OK,value:42}'' 0 awaiting_r1)
     ''r1'' = None \<and>
   delivered awaiting_r1
     (receiveMessage example_env ''{type:Xresult,requestId:r1,state:OK,value:42}'' 0 awaiting_r1)
     = [(0, response_r1)] \<and>
   map_option outcome
     (promises
        (receiveMessage example_env ''{type:Xresult,requestId:r1,state:OK,value:42}'' 0 awaiting_r1)
        0) = Some (Resolved response_r1)"
proof -
  let ?data = "''{type:Xresult,requestId:r1,state:OK,value:42}''"
  have h1: "JSON_parse example_env ?data = Some response_r1"
    by (simp add: example_defs)
  have h2: "truthy response_r1" by (simp add: response_r1_def)
  have h3: "truthy_opt (field response_r1 ''requestId'')"
    by (simp add: response_r1_def truthy_opt_def)
  have reg: "eventResultHandlers awaiting_r1 ''r1'' = Some 0"
    by (simp add: example_defs ws_defs)
  have pend: "promises awaiting_r1 0 = Some \<lparr>outcome = Pending, timeout = 1\<rparr>"
    by (simp add: example_defs ws_defs)
  have key: "field response_r1 ''requestId'' = Some (JStr ''r1'')"
    "field response_r1 ''state'' = Some (JStr ''OK'')"
    by (simp_all add: response_r1_def)
  show ?thesis
    using response_resolved_once[OF h1 h2 h3, where s = awaiting_r1 and now = 0 and later = 1]
      h1 h2 h3 reg pend
    by (simp add: key map_get_def map_delete_def)
qed

subsection \<open>Writing to the socket\<close>

lemma sends_append: "sends (xs @ ys) = sends xs @ sends ys"
  by (simp add: sends_def)

lemma sends_simps [simp]: "sends [] = []" "sends (Send w m # es) = (w, m) # sends es"
  "sends (Log l f a # es) = sends es"
  by (simp_all add: sends_def)

lemma sendMessageToSocket_up:
  assumes "socket s = Some w" "readyState (sockets s w) = OPEN"
  shows "\<exists>logs. list_all is_log logs \<and>
      sendMessageToSocket m b s =
        s\<lparr>sockets := (sockets s)(w := after_write (sockets s w)), trace := trace s @ logs @ [Send w m]\<rparr>"
proof (cases "enabledInternal s")
  case True
  have "sendMessageToSocket m b s =
        s\<lparr>sockets := (sockets s)(w := after_write (sockets s w)),
          trace := trace s @ [Log Debug ''Sending msg to websocket - message {}'' [Some (JStr m)]] @ [Send w m]\<rparr>"
    using assms True by (simp add: sendMessageToSocket_def connected_def log_internal_def emit_def socket_send_def)
  then show ?thesis by (intro exI[of _ "[Log Debug ''Sending msg to websocket - message {}'' [Some (JStr m)]]"]) simp
next
  case False
  have "sendMessageToSocket m b s =
        s\<lparr>sockets := (sockets s)(w := after_write (sockets s w)), trace := trace s @ [] @ [Send w m]\<rparr>"
    using assms False by (simp add: sendMessageToSocket_def connected_def log_internal_def emit_def socket_send_def)
  then show ?thesis by (intro exI[of _ "[]"]) simp
qed

lemma sendMessageToSocket_down:
  assumes "\<not> connected s"
  shows "\<exists>logs. list_all is_log logs \<and>
      sendMessageToSocket m b s =
        s\<lparr>disconnectEventBuffer := (if b then disconnectEventBuffer s else disconnectEventBuffer s @ [m]),
          trace := trace s @ logs\<rparr>"
proof (cases "enabledInternal s")
  case True
  show ?thesis
  proof (cases b)
    case True
    with \<open>enabledInternal s\<close> assms show ?thesis
      by (intro exI[of _ "[Log Warn ''Websocket is not connected. Subscription event will be sent once websocket connection is established. Event: {}'' [Some (JStr m)]]"])
         (simp add: sendMessageToSocket_def log_internal_def emit_def)
  next
    case False
    with \<open>enabledInternal s\<close> assms show ?thesis
      by (intro exI[of _ "[Log Warn ''Websocket is not connected. Event added into disconnected buffer. Disconnected buffer size:{}. Event: {}'' [Some (JNum (int (length (disconnectEventBuffer s @ [m])))), Some (JStr m)]]"])
         (simp add: sendMessageToSocket_def log_internal_def emit_def Let_def)
  qed
next
  case False
  with assms show ?thesis
    by (intro exI[of _ "[]"]) (simp add: sendMessageToSocket_def log_internal_def emit_def Let_def)
qed

lemma connected_update [simp]:
  "connected (s\<lparr>trace := t\<rparr>) = connected s"
  "connected (s\<lparr>disconnectEventBuffer := b\<rparr>) = connected s"
  "connected (s\<lparr>subscriptionEvents := e\<rparr>) = connected s"
  "connected (s\<lparr>eventHandlers := h\<rparr>) = connected s"
  by (simp_all add: connected_def split: option.splits)

lemma sendMessageToSocket_link_up:
  assumes "link_up w s"
  shows "\<exists>es. sendMessageToSocket m b s = s\<lparr>trace := trace s @ es\<rparr> \<and> sends es = [(w, m)]"
proof -
  from assms have a: "socket s = Some w" "readyState (sockets s w) = OPEN"
    and n: "writesLeft (sockets s w) = None"
    by (simp_all add: link_up_def)
  from sendMessageToSocket_up[OF a, of m b] obtain logs where
    l: "list_all is_log logs" and
    e: "sendMessageToSocket m b s =
          s\<lparr>sockets := (sockets s)(w := after_write (sockets s w)),
            trace := trace s @ logs @ [Send w m]\<rparr>" by blast
  have "sends logs = []" using l
    by (induction logs) (auto simp: sends_def elim: is_log.elims)
  moreover have "after_write (sockets s w) = sockets s w"
    using n by (simp add: after_write_def)
  ultimately show ?thesis
    using e by (intro exI[of _ "logs @ [Send w m]"]) (simp add: sends_append)
qed

lemma fold_send_link_up:
  assumes "link_up w s"
  shows "\<exists>es. fold (\<lambda>m. sendMessageToSocket m b) ms s = s\<lparr>trace := trace s @ es\<rparr> \<and>
              sends es = map (Pair w) ms"
  using assms
proof (induction ms arbitrary: s)
  case Nil
  show ?case by (intro exI[of _ "[]"]) simp
next
  case (Cons m ms)
  from sendMessageToSocket_link_up[OF Cons.prems, of m b] obtain es1 where
    e1: "sendMessageToSocket m b s = s\<lparr>trace := trace s @ es1\<rparr>" and s1: "sends es1 = [(w, m)]"
    by blast
  have "link_up w (s\<lparr>trace := trace s @ es1\<rparr>)"
    using Cons.prems by (simp add: link_up_def)
  from Cons.IH[OF this] obtain es2 where
    e2: "fold (\<lambda>m. sendMessageToSocket m b) ms (s\<lparr>trace := trace s @ es1\<rparr>) =
           s\<lparr>trace := trace s @ es1\<rparr>\<lparr>trace := trace (s\<lparr>trace := trace s @ es1\<rparr>) @ es2\<rparr>"
    and s2: "sends es2 = map (Pair w) ms" by blast
  show ?case
    by (intro exI[of _ "es1 @ es2"]) (simp add: e1 e2 s1 s2 sends_append)
qed

lemma sends_logs: "list_all is_log logs \<Longrightarrow> sends logs = []"
  by (induction logs) (auto simp: sends_def elim: is_log.elims)

lemma fold_send_down:
  assumes "\<not> connected s"
  shows "\<exists>es. fold (\<lambda>m. sendMessageToSocket m False) ms s =
                s\<lparr>disconnectEventBuffer := disconnectEventBuffer s @ ms, trace := trace s @ es\<rparr> \<and>
              sends es = []"
  using assms
proof (induction ms arbitrary: s)
  case Nil
  show ?case by (intro exI[of _ "[]"]) simp
next
  case (Cons m ms)
  from sendMessageToSocket_down[OF Cons.prems, of m False] obtain es1 where
    l1: "list_all is_log es1" and
    e1: "sendMessageToSocket m False s =
           s\<lparr>disconnectEventBuffer := disconnectEventBuffer s @ [m], trace := trace s @ es1\<rparr>"
    by auto
  let ?s1 = "s\<lparr>disconnectEventBuffer := disconnectEventBuffer s @ [m], trace := trace s @ es1\<rparr>"
  have "\<not> connected ?s1" using Cons.prems by simp
  from Cons.IH[OF this] obtain es2 where
    e2: "fold (\<lambda>m. sendMessageToSocket m False) ms ?s1 =
           ?s1\<lparr>disconnectEventBuffer := disconnectEventBuffer ?s1 @ ms, trace := trace ?s1 @ es2\<rparr>"
    and s2: "sends es2 = []" by blast
  show ?case
    by (intro exI[of _ "es1 @ es2"]) (simp add: e1 e2 s2 sends_append sends_logs[OF l1])
qed

lemma fold_send_any:
  "\<exists>k es. k \<le> length ms \<and>
      trace (fold (\<lambda>m. sendMessageToSocket m False) ms s) = trace s @ es \<and>
      map snd (sends es) = take k ms \<and>
      disconnectEventBuffer (fold (\<lambda>m. sendMessageToSocket m False) ms s) =
        disconnectEventBuffer s @ drop k ms \<and>
      (0 < k \<longrightarrow> connected s)"
proof (induction ms arbitrary: s)
  case Nil
  show ?case by (intro exI[of _ 0] exI[of _ "[]"]) simp
next
  case (Cons m ms)
  show ?case
  proof (cases "connected s")
    case False
    from fold_send_down[OF False, of "m # ms"] obtain es where
      "fold (\<lambda>m. sendMessageToSocket m False) (m # ms) s =
         s\<lparr>disconnectEventBuffer := disconnectEventBuffer s @ m # ms, trace := trace s @ es\<rparr>"
      "sends es = []" by blast
    then show ?thesis by (intro exI[of _ 0] exI[of _ es]) simp
  next
    case True
    then obtain w where a: "socket s = Some w" "readyState (sockets s w) = OPEN"
      by (auto simp: connected_def split: option.splits)
    from sendMessageToSocket_up[OF a, of m False] obtain logs where
      l: "list_all is_log logs" and
      e: "sendMessageToSocket m False s =
          s\<lparr>sockets := (sockets s)(w := after_write (sockets s w)),
            trace := trace s @ logs @ [Send w m]\<rparr>" by blast
    let ?s1 = "sendMessageToSocket m False s"
    from Cons.IH[of ?s1] obtain k es where
      k: "k \<le> length ms" and
      t: "trace (fold (\<lambda>m. sendMessageToSocket m False) ms ?s1) = trace ?s1 @ es" and
      w: "map snd (sends es) = take k ms" and
      b: "disconnectEventBuffer (fold (\<lambda>m. sendMessageToSocket m False) ms ?s1) =
            disconnectEventBuffer ?s1 @ drop k ms" by blast
    show ?thesis
      using k t w b True
      by (intro exI[of _ "Suc k"] exI[of _ "logs @ [Send w m] @ es"])
         (simp add: e sends_append sends_logs[OF l])
  qed
qed

lemma written_extends: "trace s' = trace s @ es \<Longrightarrow> written s s' = sends es"
  by (simp add: written_def)

lemma startSendHeartBeat_fields:
  "trace (startSendHeartBeat E now s) = trace s"
  "disconnectEventBuffer (startSendHeartBeat E now s) = disconnectEventBuffer s"
  "subscriptionEvents (startSendHeartBeat E now s) = subscriptionEvents s"
  "socket (startSendHeartBeat E now s) = socket s"
  "sockets (startSendHeartBeat E now s) = sockets s"
  "eventHandlers (startSendHeartBeat E now s) = eventHandlers s"
  "eventResultHandlers (startSendHeartBeat E now s) = eventResultHandlers s"
  "promises (startSendHeartBeat E now s) = promises s"
  by (simp_all add: startSendHeartBeat_def stopSentHeartBeat_def setInterval_def
      clearInterval_def Let_def split: option.splits)

lemma log_internal_extends:
  "\<exists>l. log_internal lvl fmt args s = s\<lparr>trace := trace s @ l\<rparr> \<and> sends l = [] \<and> list_all is_log l"
proof (cases "enabledInternal s")
  case True
  then show ?thesis
    by (intro exI[of _ "[Log lvl fmt args]"]) (simp add: log_internal_def emit_def)
next
  case False
  then show ?thesis
    by (intro exI[of _ "[]"]) (simp add: log_internal_def)
qed

lemma on_open_link_up:
  assumes "link_up w s"
  shows "\<exists>es. trace (on_open E now s) = trace s @ es \<and>
           sends es = map (Pair w) (subscriptionEvents s) @ map (Pair w) (disconnectEventBuffer s)"
    and "disconnectEventBuffer (on_open E now s) = []"
    and "subscriptionEvents (on_open E now s) = subscriptionEvents s"
    and "link_up w (on_open E now s)"
proof -
  define s0 where "s0 = log_internal Info ''Websocket connected'' [] s"
  define s1 where "s1 = replaySubscriptions s0"
  define s2 where "s2 = flushDisconnectBuffer s1"
  obtain l0 where s0: "s0 = s\<lparr>trace := trace s @ l0\<rparr>" and l0: "sends l0 = []"
    unfolding s0_def using log_internal_extends[of Info "''Websocket connected''" "[]" s] by blast
  have up0: "link_up w s0" using assms by (simp add: s0 link_up_def)
  from fold_send_link_up[OF up0, of True "subscriptionEvents s0"] obtain es1 where
    s1: "s1 = s0\<lparr>trace := trace s0 @ es1\<rparr>" and
    e1: "sends es1 = map (Pair w) (subscriptionEvents s0)"
    by (auto simp: replaySubscriptions_def s1_def)
  have up1: "link_up w (s1\<lparr>disconnectEventBuffer := []\<rparr>)"
    using up0 by (simp add: s1 link_up_def)
  from fold_send_link_up[OF up1, of False "disconnectEventBuffer s1"] obtain es2 where
    s2: "s2 = s1\<lparr>disconnectEventBuffer := []\<rparr>
              \<lparr>trace := trace (s1\<lparr>disconnectEventBuffer := []\<rparr>) @ es2\<rparr>" and
    e2: "sends es2 = map (Pair w) (disconnectEventBuffer s1)"
    by (auto simp: flushDisconnectBuffer_def Let_def s2_def)
  have open_eq: "on_open E now s =
      addEventHandler ''heartbeat'' HeartbeatStamp (startSendHeartBeat E now s2)"
    by (simp add: on_open_def onConnect_def s2_def s1_def s0_def)
  have f0: "subscriptionEvents s0 = subscriptionEvents s"
    "disconnectEventBuffer s0 = disconnectEventBuffer s"
    "socket s0 = socket s" "sockets s0 = sockets s"
    by (simp_all add: s0)
  have f1: "subscriptionEvents s1 = subscriptionEvents s"
    "disconnectEventBuffer s1 = disconnectEventBuffer s"
    "socket s1 = socket s" "sockets s1 = sockets s" "trace s1 = trace s @ l0 @ es1"
    by (simp_all add: s1 f0) (simp add: s0)
  have f2: "subscriptionEvents s2 = subscriptionEvents s"
    "disconnectEventBuffer s2 = []"
    "socket s2 = socket s" "sockets s2 = sockets s" "trace s2 = trace s @ l0 @ es1 @ es2"
    by (simp_all add: s2 f1)
  show "\<exists>es. trace (on_open E now s) = trace s @ es \<and>
           sends es = map (Pair w) (subscriptionEvents s) @ map (Pair w) (disconnectEventBuffer s)"
    by (intro exI[of _ "l0 @ es1 @ es2"])
       (simp add: open_eq addEventHandler_def startSendHeartBeat_fields f2 sends_append l0 e1 e2 f0 f1)
  show "disconnectEventBuffer (on_open E now s) = []"
    by (simp add: open_eq addEventHandler_def startSendHeartBeat_fields f2)
  show "subscriptionEvents (on_open E now s) = subscriptionEvents s"
    by (simp add: open_eq addEventHandler_def startSendHeartBeat_fields f2)
  show "link_up w (on_open E now s)"
    using assms by (simp add: open_eq addEventHandler_def startSendHeartBeat_fields link_up_def f2)
qed

subsection \<open>Subscriptions and routing\<close>

lemma sendMessageToSocket_subscription_fields:
  "disconnectEventBuffer (sendMessageToSocket m True s) = disconnectEventBuffer s"
  "subscriptionEvents (sendMessageToSocket m b s) = subscriptionEvents s"
  "eventHandlers (sendMessageToSocket m b s) = eventHandlers s"
  by (simp_all add: sendMessageToSocket_def log_internal_def emit_def socket_send_def Let_def
      split: option.splits)

lemma replaySubscriptions_buffer:
  "disconnectEventBuffer (fold (\<lambda>m. sendMessageToSocket m True) ms s) = disconnectEventBuffer s"
  by (induction ms arbitrary: s) (simp_all add: sendMessageToSocket_subscription_fields)

lemma sendEvent_unconnected:
  assumes "\<not> connected s"
  shows "disconnectEventBuffer (sendEvent E message False s) =
           disconnectEventBuffer s @ [JSON_stringify E message]"
    and "written s (sendEvent E message False s) = []"
proof -
  from sendMessageToSocket_down[OF assms, of "JSON_stringify E message" False] obtain logs where
    l: "list_all is_log logs" and
    e: "sendMessageToSocket (JSON_stringify E message) False s =
          s\<lparr>disconnectEventBuffer := disconnectEventBuffer s @ [JSON_stringify E message],
            trace := trace s @ logs\<rparr>" by auto
  show "disconnectEventBuffer (sendEvent E message False s) =
           disconnectEventBuffer s @ [JSON_stringify E message]"
    by (simp add: sendEvent_def e)
  show "written s (sendEvent E message False s) = []"
    by (simp add: sendEvent_def e written_def sends_logs[OF l])
qed

lemma sendEvent_subscription_fields:
  "subscriptionEvents (sendEvent E message True s) = subscriptionEvents s @ [JSON_stringify E message]"
  "eventHandlers (sendEvent E message b s) = eventHandlers s"
  "disconnectEventBuffer (sendEvent E message True s) = disconnectEventBuffer s"
  by (simp_all add: sendEvent_def Let_def sendMessageToSocket_subscription_fields log_internal_def emit_def)

lemma subscribe_fields:
  "subscriptionEvents (subscribe E responseType call s) = subscriptionEvents s @ [payload E call]"
  "eventHandlers (subscribe E responseType call s) = (eventHandlers s)(responseType \<mapsto> handler_of call)"
  "disconnectEventBuffer (subscribe E responseType call s) = disconnectEventBuffer s"
  by (cases call; simp add: subscribe_def subscribeToEvent_def subscribeToLiveEvent_def Let_def
        sendEvent_subscription_fields)+

lemma subscribe_many:
  "subscriptionEvents (fold (subscribe E responseType) calls s) =
     subscriptionEvents s @ map (payload E) calls"
  "disconnectEventBuffer (fold (subscribe E responseType) calls s) = disconnectEventBuffer s"
  "eventHandlers (fold (subscribe E responseType) calls s) =
     (if calls = [] then eventHandlers s
      else (eventHandlers s)(responseType \<mapsto> handler_of (last calls)))"
  by (induction calls arbitrary: s; simp add: subscribe_fields)+

text \<open>
  C7. After one or more subscribe calls under one response type, the handler table
  holds the handler of the last call under that type (nothing else in the table has
  changed), and the registry has grown by one entry per call, in call order, equal
  payloads included. On a connect with the link up every one of these entries is
  written, and the registry stays as it is for the next connect.
\<close>

theorem resubscribe_appends:
  assumes "calls \<noteq> []"
  shows "eventHandlers (fold (subscribe E responseType) calls s) =
           (eventHandlers s)(responseType \<mapsto> handler_of (last calls)) \<and>
         subscriptionEvents (fold (subscribe E responseType) calls s) =
           subscriptionEvents s @ map (payload E) calls \<and>
         length (subscriptionEvents (fold (subscribe E responseType) calls s)) =
           length (subscriptionEvents s) + length calls \<and>
         (\<forall>w. link_up w (fold (subscribe E responseType) calls s) \<longrightarrow>
            written (fold (subscribe E responseType) calls s)
              (on_open E now (fold (subscribe E responseType) calls s)) =
              map (Pair w) (subscriptionEvents s @ map (payload E) calls) @
              map (Pair w) (disconnectEventBuffer s) \<and>
            subscriptionEvents (on_open E now (fold (subscribe E responseType) calls s)) =
              subscriptionEvents s @ map (payload E) calls)"
proof -
  let ?s' = "fold (subscribe E responseType) calls s"
  have "written ?s' (on_open E now ?s') =
              map (Pair w) (subscriptionEvents ?s') @ map (Pair w) (disconnectEventBuffer ?s')"
    if "link_up w ?s'" for w
    using on_open_link_up(1)[OF that, of E now] by (auto simp: written_extends)
  then show ?thesis
    using assms by (simp add: subscribe_many on_open_link_up(3))
qed

text \<open>
  C9. A frame that parses to a truthy value whose \<^verbatim>\<open>requestId\<close> is absent, null or
  the empty string is not handled as a response: no result handler is called, the
  pending map and the promises stay as they are. It goes to the handler registered
  under its \<^verbatim>\<open>type\<close>, and when there is none nothing changes at all.
\<close>

theorem falsy_requestId_dispatched_by_type:
  assumes "JSON_parse E data = Some frame" and "truthy frame"
    and "field frame ''requestId'' \<in> {None, Some JNull, Some (JStr [])}"
  shows "receiveMessage E data now s =
           (case map_get (eventHandlers s) (field frame ''type'') of
              None \<Rightarrow> s
            | Some HeartbeatStamp \<Rightarrow> s\<lparr>lastIncomeHeartbeat := Some now\<rparr>
            | Some (UserHandler n) \<Rightarrow> s\<lparr>trace := trace s @ [Call (UserHandler n) frame]\<rparr>) \<and>
         eventResultHandlers (receiveMessage E data now s) = eventResultHandlers s \<and>
         promises (receiveMessage E data now s) = promises s \<and>
         delivered s (receiveMessage E data now s) = []"
proof -
  have "\<not> truthy_opt (field frame ''requestId'')"
    using assms(3) by (auto simp: truthy_opt_def)
  then have eq: "receiveMessage E data now s =
           (case map_get (eventHandlers s) (field frame ''type'') of
              None \<Rightarrow> s
            | Some HeartbeatStamp \<Rightarrow> s\<lparr>lastIncomeHeartbeat := Some now\<rparr>
            | Some (UserHandler n) \<Rightarrow> s\<lparr>trace := trace s @ [Call (UserHandler n) frame]\<rparr>)"
    using assms(1,2)
    by (simp add: receiveMessage_def invoke_def emit_def split: option.splits event_handler.splits)
  show ?thesis
    unfolding eq by (simp add: delivered_def split: option.splits event_handler.splits)
qed

lemmas ws_defs2 = ws_defs subscribeToLiveEvent_def subscribeToEvent_def platform_open_def
  platform_flaky_def platform_closed_def link_up_def on_open_def onConnect_def
  replaySubscriptions_def flushDisconnectBuffer_def startSendHeartBeat_def stopSentHeartBeat_def
  setInterval_def clearInterval_def addEventHandler_def written_def invoke_def

lemmas example_defs2 = example_defs note_event_def offline_backlog_def backlog_ready_def
  backlog_flaky_def online_client_def

theorem resubscribe_appends_witness:
  "[Live ''noteSubscriptionRequest'' (UserHandler 7),
    Live ''noteSubscriptionRequest'' (UserHandler 8)] \<noteq> [] \<and>
   eventHandlers
     (fold (subscribe example_env ''note'')
        [Live ''noteSubscriptionRequest'' (UserHandler 7),
         Live ''noteSubscriptionRequest'' (UserHandler 8)] online_client) ''note'' =
     Some (UserHandler 8) \<and>
   subscriptionEvents
     (fold (subscribe example_env ''note'')
        [Live ''noteSubscriptionRequest'' (UserHandler 7),
         Live ''noteSubscriptionRequest'' (UserHandler 8)] online_client) =
     [''{keepAliveMs:0,responseTag:deno-script-api,type:noteSubscriptionRequest}'',
      ''{keepAliveMs:0,responseTag:deno-script-api,type:noteSubscriptionRequest}''] \<and>
   link_up 0
     (fold (subscribe example_env ''note'')
        [Live ''noteSubscriptionRequest'' (UserHandler 7),
         Live ''noteSubscriptionRequest'' (UserHandler 8)] online_client) \<and>
   written
     (fold (subscribe example_env ''note'')
        [Live ''noteSubscriptionRequest'' (UserHandler 7),
         Live ''noteSubscriptionRequest'' (UserHandler 8)] online_client)
     (on_open example_env 100
        (fold (subscribe example_env ''note'')
           [Live ''noteSubscriptionRequest'' (UserHandler 7),
            Live ''noteSubscriptionRequest'' (UserHandler 8)] online_client)) =
     [(0, ''{keepAliveMs:0,responseTag:deno-script-api,type:noteSubscriptionRequest}''),
      (0, ''{keepAliveMs:0,responseTag:deno-script-api,type:noteSubscriptionRequest}'')]"
proof -
  let ?calls = "[Live ''noteSubscriptionRequest'' (UserHandler 7),
                 Live ''noteSubscriptionRequest'' (UserHandler 8)]"
  have ne: "?calls \<noteq> []" by simp
  have up: "link_up 0 (fold (subscribe example_env ''note'') ?calls online_client)"
    by (simp add: subscribe_def example_defs2 ws_defs2)
  have f: "subscriptionEvents online_client = []" "disconnectEventBuffer online_client = []"
    "eventHandlers online_client ''note'' = None"
    by (simp_all add: example_defs2 ws_defs2)
  have pl: "JSON_stringify example_env
       (JObj [(''keepAliveMs'', JNum 0), (''responseTag'', JStr ''deno-script-api''),
              (''type'', JStr ''noteSubscriptionRequest'')]) =
       ''{keepAliveMs:0,responseTag:deno-script-api,type:noteSubscriptionRequest}''"
    by (simp add: example_defs2)
  note T = resubscribe_appends[OF ne, where E = example_env and responseType = "''note''"
        and s = online_client and now = 100]
  note W = T[THEN conjunct2, THEN conjunct2, THEN conjunct2, THEN spec, of 0, THEN mp, OF up]
  show ?thesis
    using T W up
    by (simp add: f pl)
qed

theorem falsy_requestId_dispatched_by_type_witness:
  "JSON_parse example_env ''{type:note}'' = Some note_event \<and>
   truthy note_event \<and>
   field note_event ''requestId'' \<in> {None, Some JNull, Some (JStr [])} \<and>
   receiveMessage example_env ''{type:note}'' 5 offline_backlog =
     offline_backlog\<lparr>trace := trace offline_backlog @ [Call (UserHandler 7) note_event]\<rparr> \<and>
   receiveMessage example_env ''{type:note}'' 5 fresh_client = fresh_client"
proof -
  have h1: "JSON_parse example_env ''{type:note}'' = Some note_event"
    by (simp add: example_defs2)
  have h2: "truthy note_event" by (simp add: note_event_def)
  have h3: "field note_event ''requestId'' \<in> {None, Some JNull, Some (JStr [])}"
    by (simp add: note_event_def)
  have t: "field note_event ''type'' = Some (JStr ''note'')"
    by (simp add: note_event_def)
  have r: "eventHandlers offline_backlog ''note'' = Some (UserHandler 7)"
    "eventHandlers fresh_client ''note'' = None"
    by (simp_all add: example_defs2 ws_defs2)
  show ?thesis
    using falsy_requestId_dispatched_by_type[OF h1 h2 h3, where s = offline_backlog and now = 5]
      falsy_requestId_dispatched_by_type[OF h1 h2 h3, where s = fresh_client and now = 5]
      h1 h2 h3
    by (simp add: t r map_get_def)
qed

subsection \<open>A pending request across turns\<close>

lemma pending_request_update [simp]:
  "pending_request rid p t (s\<lparr>trace := a\<rparr>) = pending_request rid p t s"
  "pending_request rid p t (s\<lparr>sockets := b\<rparr>) = pending_request rid p t s"
  "pending_request rid p t (s\<lparr>socket := c\<rparr>) = pending_request rid p t s"
  "pending_request rid p t (s\<lparr>disconnectEventBuffer := d\<rparr>) = pending_request rid p t s"
  "pending_request rid p t (s\<lparr>subscriptionEvents := e\<rparr>) = pending_request rid p t s"
  "pending_request rid p t (s\<lparr>eventHandlers := f\<rparr>) = pending_request rid p t s"
  "pending_request rid p t (s\<lparr>lastIncomeHeartbeat := g\<rparr>) = pending_request rid p t s"
  "pending_request rid p t (s\<lparr>nextSocket := h\<rparr>) = pending_request rid p t s"
  by (simp_all add: pending_request_def)

lemma pending_emit [simp]: "pending_request rid p t (emit e s) = pending_request rid p t s"
  by (simp add: emit_def)

lemma pending_log [simp]: "pending_request rid p t (log_internal l f a s) = pending_request rid p t s"
  by (simp add: log_internal_def)

lemma pending_socket_send [simp]: "pending_request rid p t (socket_send w m s) = pending_request rid p t s"
  by (simp add: socket_send_def)

lemma pending_socket_close [simp]: "pending_request rid p t (socket_close w c r s) = pending_request rid p t s"
  by (simp add: socket_close_def)

lemma pending_sendMessageToSocket [simp]:
  "pending_request rid p t (sendMessageToSocket m b s) = pending_request rid p t s"
  by (simp add: sendMessageToSocket_def Let_def split: option.splits)

lemma pending_sendEvent [simp]:
  "pending_request rid p t (sendEvent E m b s) = pending_request rid p t s"
  by (simp add: sendEvent_def Let_def)

lemma pending_fold_send [simp]:
  "pending_request rid p t (fold (\<lambda>m. sendMessageToSocket m b) ms s) = pending_request rid p t s"
  by (induction ms arbitrary: s) simp_all

lemma pending_setTimeout:
  assumes "pending_request rid p t s" and "\<forall>p'. cb \<noteq> ResponseTimeoutCb rid p'"
    and "\<forall>rid'. cb \<noteq> ResponseTimeoutCb rid' p"
  shows "pending_request rid p t (setTimeout cb ms s)"
  using assms by (auto simp: pending_request_def setTimeout_def)

lemma pending_setInterval:
  assumes "pending_request rid p t s" and "\<forall>p'. cb \<noteq> ResponseTimeoutCb rid p'" and "\<forall>rid'. cb \<noteq> ResponseTimeoutCb rid' p"
  shows "pending_request rid p t (setInterval cb ms s)"
  using assms by (auto simp: pending_request_def setInterval_def)

lemma pending_clearTimeout:
  assumes "pending_request rid p t s" and "t' \<noteq> t"
  shows "pending_request rid p t (clearTimeout t' s)"
  using assms by (auto simp: pending_request_def clearTimeout_def)

lemma pending_clearInterval:
  assumes "pending_request rid p t s" and "t' \<noteq> t"
  shows "pending_request rid p t (clearInterval t' s)"
  using assms by (auto simp: pending_request_def clearInterval_def)

lemma pending_reconnect:
  assumes "pending_request rid p t s"
  shows "pending_request rid p t (reconnect s)"
proof -
  have "pending_request rid p t (setTimeout ReconnectCb 1000 s)"
    using assms by (intro pending_setTimeout) simp_all
  moreover have "nextTimer s \<noteq> t" using assms by (simp add: pending_request_def)
  ultimately show ?thesis
    by (simp add: reconnect_def pending_request_def setTimeout_def)
qed

lemma pending_stopSentHeartBeat:
  assumes "pending_request rid p t s"
  shows "pending_request rid p t (stopSentHeartBeat s)"
proof (cases "heartbeatSendingInterval s")
  case None
  then show ?thesis using assms by (simp add: stopSentHeartBeat_def)
next
  case (Some i)
  with assms have "i \<noteq> t" by (auto simp: pending_request_def)
  from pending_clearInterval[OF assms this] have "pending_request rid p t (clearInterval i s)" .
  then have "pending_request rid p t
      ((clearInterval i s)\<lparr>heartbeatSendingInterval := None, lastIncomeHeartbeat := None\<rparr>)"
    by (simp add: pending_request_def)
  with Some assms show ?thesis by (simp add: stopSentHeartBeat_def)
qed

lemma pending_startSendHeartBeat:
  assumes "pending_request rid p t s"
  shows "pending_request rid p t (startSendHeartBeat E now s)"
proof -
  let ?s1 = "stopSentHeartBeat s"
  have 1: "pending_request rid p t ?s1" using assms by (rule pending_stopSentHeartBeat)
  have 2: "pending_request rid p t (setInterval HeartbeatCb (WS_HEARTBEAT_INTERVAL E) ?s1)"
    using 1 by (intro pending_setInterval) simp_all
  have "nextTimer ?s1 \<noteq> t" using 1 by (simp add: pending_request_def)
  with 2 show ?thesis
    by (simp add: startSendHeartBeat_def Let_def pending_request_def setInterval_def)
qed

lemma pending_disconnect:
  assumes "pending_request rid p t s"
  shows "pending_request rid p t (disconnect s)"
  using pending_stopSentHeartBeat[OF assms] assms
  by (simp add: disconnect_def Let_def split: option.splits)

lemma pending_connect:
  assumes "pending_request rid p t s"
  shows "pending_request rid p t (connect E ctor s)"
proof -
  have "reconnectTimeout s \<noteq> t" using assms by (simp add: pending_request_def)
  from pending_clearTimeout[OF assms this]
  have 1: "pending_request rid p t (clearTimeout (reconnectTimeout s) s)" .
  show ?thesis
    using 1 pending_reconnect[of rid p t]
    by (simp add: connect_def Let_def)
qed

lemma pending_on_open:
  assumes "pending_request rid p t s"
  shows "pending_request rid p t (on_open E now s)"
  using assms
  by (simp add: on_open_def onConnect_def addEventHandler_def replaySubscriptions_def
      flushDisconnectBuffer_def Let_def pending_startSendHeartBeat)

lemma pending_heartbeat_tick:
  assumes "pending_request rid p t s"
  shows "pending_request rid p t (heartbeat_tick E now s)"
  using assms by (simp add: heartbeat_tick_def Let_def split: option.splits)

lemma pending_reject:
  assumes "pending_request rid p t s" and "q \<noteq> p"
  shows "pending_request rid p t (reject q reason s)"
  using assms by (auto simp: pending_request_def reject_def split: option.splits)

lemma pending_resolve:
  assumes "pending_request rid p t s" and "q \<noteq> p"
  shows "pending_request rid p t (resolve q v s)"
proof (cases "promises s q")
  case None
  then show ?thesis using assms by (simp add: resolve_def)
next
  case (Some r)
  show ?thesis
  proof (cases "outcome r = Pending")
    case False
    with Some assms show ?thesis by (simp add: resolve_def)
  next
    case True
    have nt: "timeout r \<noteq> t" using assms Some by (auto simp: pending_request_def)
    have "pending_request rid p t (s\<lparr>promises := (promises s)(q \<mapsto> r\<lparr>outcome := Resolved v\<rparr>)\<rparr>)"
      using assms Some by (auto simp: pending_request_def)
    from pending_clearTimeout[OF this nt] Some True show ?thesis
      by (simp add: resolve_def)
  qed
qed

lemma pending_result_handler:
  assumes "pending_request rid p t s" and "q \<noteq> p"
  shows "pending_request rid p t (result_handler q response s)"
  using assms by (simp add: result_handler_def pending_reject pending_resolve)

lemma pending_forget:
  assumes "pending_request rid p t s" and "k \<noteq> rid"
  shows "pending_request rid p t (s\<lparr>eventResultHandlers := (eventResultHandlers s)(k := None)\<rparr>)"
  using assms by (auto simp: pending_request_def)

lemma pending_processResponse:
  assumes "pending_request rid p t s" and "field frame ''requestId'' \<noteq> Some (JStr rid)"
  shows "pending_request rid p t (processResponse frame s)"
proof (cases "map_get (eventResultHandlers s) (field frame ''requestId'')")
  case None
  then show ?thesis using assms(1) by (simp add: processResponse_def Let_def log_internal_def emit_def)
next
  case (Some q)
  then obtain k where k: "field frame ''requestId'' = Some (JStr k)" "eventResultHandlers s k = Some q"
    by (auto simp: map_get_def split: option.splits json.splits)
  with assms(2) have kr: "k \<noteq> rid" by auto
  with k assms(1) have qp: "q \<noteq> p" by (auto simp: pending_request_def)
  define s1 where "s1 = log_internal Debug ''Process response with ID {}'' [field frame ''requestId''] s"
  have e1: "eventResultHandlers s1 = eventResultHandlers s" and p1: "pending_request rid p t s1"
    using assms(1) by (simp_all add: s1_def log_internal_def emit_def)
  have run: "processResponse frame s =
      result_handler q frame
        (emit (Deliver q frame) (s1\<lparr>eventResultHandlers := (eventResultHandlers s1)(k := None)\<rparr>))"
    using Some unfolding s1_def
    by (simp add: processResponse_def Let_def k map_delete_def map_get_def log_internal_def emit_def)
  show ?thesis
    unfolding run
    by (intro pending_result_handler qp) (simp add: pending_forget[OF p1 kr])
qed

lemma pending_receiveMessage:
  assumes "pending_request rid p t s" and "\<not> concerns E rid t (SocketMessage w data now)"
  shows "pending_request rid p t (receiveMessage E data now s)"
proof (cases "JSON_parse E data")
  case None
  then show ?thesis using assms(1) by (simp add: receiveMessage_def)
next
  case (Some frame)
  show ?thesis
  proof (cases "truthy frame")
    case False
    with Some assms(1) show ?thesis by (simp add: receiveMessage_def)
  next
    case True
    with Some assms(2) have "field frame ''requestId'' \<noteq> Some (JStr rid)"
      by (simp add: concerns_def)
    from pending_processResponse[OF assms(1) this] Some True assms(1) show ?thesis
      by (simp add: receiveMessage_def invoke_def split: option.splits event_handler.splits)
  qed
qed

lemma pending_response_timeout:
  assumes "pending_request rid p t s" and "rid' \<noteq> rid" and "p' \<noteq> p"
  shows "pending_request rid p t (response_timeout rid' p' s)"
  using assms by (simp add: response_timeout_def pending_reject pending_forget)

lemma pending_sendEventWithResponse:
  assumes "pending_request rid p t s" and "rid' \<noteq> rid"
  shows "pending_request rid p t (sendEventWithResponse E rid' requestEvent b s)"
proof -
  have "nextPromise s \<noteq> p" "nextTimer s \<noteq> t"
    using assms(1) by (simp_all add: pending_request_def)
  then show ?thesis
    using assms unfolding sendEventWithResponse_def Let_def
    by (simp only: pending_sendEvent) (auto simp: pending_request_def setTimeout_def)
qed

lemma pending_subscribe:
  assumes "pending_request rid p t s"
  shows "pending_request rid p t (subscribe E responseType call s)"
  using assms
  by (cases call) (simp_all add: subscribe_def subscribeToEvent_def subscribeToLiveEvent_def Let_def)

lemma pending_run_callback:
  assumes "pending_request rid p t s"
    and "\<forall>rid' p'. cb = ResponseTimeoutCb rid' p' \<longrightarrow> rid' \<noteq> rid \<and> p' \<noteq> p"
  shows "pending_request rid p t (run_callback E cb now ctor s)"
  using assms
  by (cases cb)
     (simp_all add: run_callback_def reconnect_fire_def pending_connect pending_disconnect
        pending_response_timeout pending_heartbeat_tick)

lemma pending_step:
  assumes "pending_request rid p t s" and "\<not> concerns E rid t ev"
  shows "pending_request rid p t (step E ev s)"
proof (cases ev)
  case (SocketOpen w now)
  then show ?thesis using assms(1) by (simp add: step_def platform_open_def pending_on_open)
next
  case (SocketMessage w data now)
  then show ?thesis using assms by (simp add: step_def pending_receiveMessage)
next
  case (SocketClose w)
  then show ?thesis using assms(1)
    by (simp add: step_def platform_closed_def onDisconnect_def pending_reconnect)
next
  case (SocketError w message)
  then show ?thesis using assms(1) by (simp add: step_def on_error_def pending_reconnect)
next
  case (TimerFires t' now ctor)
  with assms(2) have tt: "t' \<noteq> t" by (simp add: concerns_def)
  show ?thesis
  proof (cases "timers s t'")
    case None
    with TimerFires assms(1) show ?thesis by (simp add: step_def)
  next
    case (Some x)
    have cb: "\<forall>rid' p'. callback_of x = ResponseTimeoutCb rid' p' \<longrightarrow> rid' \<noteq> rid \<and> p' \<noteq> p"
      using assms(1) Some tt by (auto simp: pending_request_def)
    show ?thesis
    proof (cases x)
      case (Timeout c ms)
      with cb have "\<forall>rid' p'. c = ResponseTimeoutCb rid' p' \<longrightarrow> rid' \<noteq> rid \<and> p' \<noteq> p" by simp
      from pending_run_callback[OF pending_clearTimeout[OF assms(1) tt] this]
      show ?thesis using TimerFires Some Timeout by (simp add: step_def)
    next
      case (Interval c ms)
      with cb have "\<forall>rid' p'. c = ResponseTimeoutCb rid' p' \<longrightarrow> rid' \<noteq> rid \<and> p' \<noteq> p" by simp
      from pending_run_callback[OF assms(1) this]
      show ?thesis using TimerFires Some Interval by (simp add: step_def)
    qed
  qed
next
  case (CallSendEvent message b)
  then show ?thesis using assms(1) by (simp add: step_def)
next
  case (CallSendEventWithResponse rid' requestEvent b)
  with assms(2) have "rid' \<noteq> rid" by (simp add: concerns_def)
  from pending_sendEventWithResponse[OF assms(1) this] CallSendEventWithResponse
  show ?thesis by (simp add: step_def)
next
  case (CallAddEventHandler type onEvent)
  then show ?thesis using assms(1) by (simp add: step_def addEventHandler_def)
next
  case (CallSubscribe responseType call)
  then show ?thesis using assms(1) by (simp add: step_def pending_subscribe)
qed

lemma pending_run:
  assumes "pending_request rid p t s" and "\<forall>ev \<in> set evs. \<not> concerns E rid t ev"
  shows "pending_request rid p t (fold (step E) evs s)"
  using assms by (induction evs arbitrary: s) (simp_all add: pending_step)

lemma ids_issued_update [simp]:
  "ids_issued (s\<lparr>trace := a\<rparr>) = ids_issued s"
  "ids_issued (s\<lparr>sockets := b\<rparr>) = ids_issued s"
  "ids_issued (s\<lparr>socket := c\<rparr>) = ids_issued s"
  "ids_issued (s\<lparr>disconnectEventBuffer := d\<rparr>) = ids_issued s"
  "ids_issued (s\<lparr>subscriptionEvents := e\<rparr>) = ids_issued s"
  "ids_issued (s\<lparr>eventHandlers := f\<rparr>) = ids_issued s"
  "ids_issued (s\<lparr>lastIncomeHeartbeat := g\<rparr>) = ids_issued s"
  "ids_issued (s\<lparr>nextSocket := h\<rparr>) = ids_issued s"
  by (simp_all add: ids_issued_def)

lemma ids_issued_emit [simp]: "ids_issued (emit e s) = ids_issued s"
  by (simp add: emit_def)

lemma ids_issued_log [simp]: "ids_issued (log_internal l f a s) = ids_issued s"
  by (simp add: log_internal_def)

lemma ids_issued_socket_send [simp]: "ids_issued (socket_send w m s) = ids_issued s"
  by (simp add: socket_send_def)

lemma ids_issued_socket_close [simp]: "ids_issued (socket_close w c r s) = ids_issued s"
  by (simp add: socket_close_def)

lemma ids_issued_sendMessageToSocket [simp]:
  "ids_issued (sendMessageToSocket m b s) = ids_issued s"
  by (simp add: sendMessageToSocket_def Let_def split: option.splits)

lemma ids_issued_sendEvent [simp]: "ids_issued (sendEvent E m b s) = ids_issued s"
  by (simp add: sendEvent_def Let_def)

lemma ids_issued_fold_send [simp]:
  "ids_issued (fold (\<lambda>m. sendMessageToSocket m b) ms s) = ids_issued s"
  by (induction ms arbitrary: s) simp_all

lemma ids_issued_clearTimeout: "ids_issued s \<Longrightarrow> ids_issued (clearTimeout t s)"
  by (auto simp: ids_issued_def clearTimeout_def)

lemma ids_issued_clearInterval: "ids_issued s \<Longrightarrow> ids_issued (clearInterval t s)"
  by (auto simp: ids_issued_def clearInterval_def)

lemma ids_issued_reconnect: "ids_issued s \<Longrightarrow> ids_issued (reconnect s)"
  by (auto simp: ids_issued_def reconnect_def setTimeout_def less_Suc_eq)

lemma ids_issued_stopSentHeartBeat: "ids_issued s \<Longrightarrow> ids_issued (stopSentHeartBeat s)"
  by (auto simp: ids_issued_def stopSentHeartBeat_def clearInterval_def split: option.splits)

lemma ids_issued_startSendHeartBeat: "ids_issued s \<Longrightarrow> ids_issued (startSendHeartBeat E now s)"
  using ids_issued_stopSentHeartBeat[of s]
  by (auto simp: ids_issued_def startSendHeartBeat_def setInterval_def Let_def less_Suc_eq)

lemma ids_issued_disconnect: "ids_issued s \<Longrightarrow> ids_issued (disconnect s)"
  using ids_issued_stopSentHeartBeat[of s]
  by (simp add: disconnect_def Let_def split: option.splits)

lemma ids_issued_connect: "ids_issued s \<Longrightarrow> ids_issued (connect E ctor s)"
  using ids_issued_clearTimeout[of s "reconnectTimeout s"]
  by (simp add: connect_def Let_def ids_issued_reconnect)

lemma ids_issued_on_open: "ids_issued s \<Longrightarrow> ids_issued (on_open E now s)"
  by (simp add: on_open_def onConnect_def addEventHandler_def replaySubscriptions_def
      flushDisconnectBuffer_def Let_def ids_issued_startSendHeartBeat)

lemma ids_issued_heartbeat_tick: "ids_issued s \<Longrightarrow> ids_issued (heartbeat_tick E now s)"
  by (simp add: heartbeat_tick_def Let_def split: option.splits)

lemma ids_issued_reject: "ids_issued s \<Longrightarrow> ids_issued (reject q reason s)"
  by (auto simp: ids_issued_def reject_def split: option.splits)

lemma ids_issued_resolve: "ids_issued s \<Longrightarrow> ids_issued (resolve q v s)"
  by (auto simp: ids_issued_def resolve_def clearTimeout_def split: option.splits)

lemma ids_issued_result_handler: "ids_issued s \<Longrightarrow> ids_issued (result_handler q r s)"
  by (simp add: result_handler_def ids_issued_reject ids_issued_resolve)

lemma ids_issued_forget:
  "ids_issued s \<Longrightarrow> ids_issued (s\<lparr>eventResultHandlers := map_delete (eventResultHandlers s) v\<rparr>)"
  by (auto simp: ids_issued_def map_delete_def split: option.splits json.splits)

lemma ids_issued_processResponse: "ids_issued s \<Longrightarrow> ids_issued (processResponse frame s)"
proof -
  assume a: "ids_issued s"
  define s1 where "s1 = log_internal Debug ''Process response with ID {}'' [field frame ''requestId''] s"
  have 1: "ids_issued s1" using a by (simp add: s1_def)
  show ?thesis
    using ids_issued_forget[OF 1] 1
    by (simp add: processResponse_def Let_def s1_def[symmetric] ids_issued_result_handler
        split: option.splits)
qed

lemma ids_issued_receiveMessage: "ids_issued s \<Longrightarrow> ids_issued (receiveMessage E data now s)"
  by (simp add: receiveMessage_def invoke_def ids_issued_processResponse
      split: option.splits event_handler.splits)

lemma ids_issued_response_timeout: "ids_issued s \<Longrightarrow> ids_issued (response_timeout rid p s)"
proof -
  assume a: "ids_issued s"
  then have "ids_issued (s\<lparr>eventResultHandlers := (eventResultHandlers s)(rid := None)\<rparr>)"
    by (auto simp: ids_issued_def)
  with a show ?thesis by (simp add: response_timeout_def ids_issued_reject)
qed

lemma ids_issued_sendEventWithResponse:
  "ids_issued s \<Longrightarrow> ids_issued (sendEventWithResponse E rid requestEvent b s)"
  unfolding sendEventWithResponse_def Let_def
  by (simp only: ids_issued_sendEvent) (auto simp: ids_issued_def setTimeout_def less_Suc_eq)

lemma ids_issued_subscribe: "ids_issued s \<Longrightarrow> ids_issued (subscribe E responseType call s)"
  by (cases call) (simp_all add: subscribe_def subscribeToEvent_def subscribeToLiveEvent_def Let_def)

lemma ids_issued_run_callback: "ids_issued s \<Longrightarrow> ids_issued (run_callback E cb now ctor s)"
  by (cases cb)
     (simp_all add: run_callback_def reconnect_fire_def ids_issued_connect ids_issued_disconnect
        ids_issued_response_timeout ids_issued_heartbeat_tick)

lemma ids_issued_step: "ids_issued s \<Longrightarrow> ids_issued (step E ev s)"
  by (cases ev)
     (simp_all add: step_def platform_open_def platform_closed_def ids_issued_on_open
        ids_issued_receiveMessage onDisconnect_def on_error_def ids_issued_reconnect
        ids_issued_run_callback ids_issued_clearTimeout ids_issued_sendEventWithResponse
        addEventHandler_def ids_issued_subscribe split: option.splits timer.splits)

lemma ids_issued_new:
  "ids_issued (new_WebSocketCommunication E ctor host key logging)"
proof -
  have "ids_issued (initial host key logging)"
    by (simp add: ids_issued_def initial_def)
  then show ?thesis
    by (simp add: new_WebSocketCommunication_def ids_issued_connect)
qed

lemma ids_issued_run: "ids_issued s \<Longrightarrow> ids_issued (fold (step E) evs s)"
  by (induction evs arbitrary: s) (simp_all add: ids_issued_step)

lemma pending_after_call:
  assumes "ids_issued s" and "unused_id rid s"
  shows "pending_request rid (nextPromise s) (nextTimer s) (sendEventWithResponse E rid requestEvent b s)"
  using assms unfolding sendEventWithResponse_def Let_def
  apply (simp only: pending_sendEvent)
  apply (auto simp: pending_request_def ids_issued_def unused_id_def setTimeout_def)
     apply (metis less_irrefl)+
  done

lemma pending_timer_fires:
  assumes "pending_request rid p t s"
  shows "promises (step E (TimerFires t now ctor) s) p =
           Some \<lparr>outcome = Rejected (Some (JStr ''Response was not obtained in 60s'')), timeout = t\<rparr>"
    and "eventResultHandlers (step E (TimerFires t now ctor) s) rid = None"
  using assms
  by (simp_all add: pending_request_def step_def run_callback_def response_timeout_def
      clearTimeout_def reject_def)

text \<open>
  C4. Let \<^verbatim>\<open>sendEventWithResponse\<close> be called with a request identifier that no
  earlier request still uses, and let any turns follow that are neither a response
  frame with this identifier, nor the firing of the call's 60 s timer, nor a new
  request under the same identifier. Then the promise of the call is still pending
  and its timer, set to 60000 ms, is still armed. When the timer fires, the promise
  is rejected with the text \<^verbatim>\<open>Response was not obtained in 60s\<close> and the entry of
  the identifier is gone from the pending map. A response frame with the identifier
  that arrives after that calls no handler and changes no promise: the state stays
  as it is but for log lines.
\<close>

theorem unanswered_request_times_out:
  assumes "ids_issued s" and "unused_id requestId s"
    and "\<forall>ev \<in> set evs. \<not> concerns E requestId (nextTimer s) ev"
  shows "let p = nextPromise s; t = nextTimer s;
             s2 = fold (step E) evs (sendEventWithResponse E requestId requestEvent isSub s);
             s3 = step E (TimerFires t now ctor) s2
         in timers s2 t = Some (Timeout (ResponseTimeoutCb requestId p) 60000) \<and>
            promises s2 p = Some \<lparr>outcome = Pending, timeout = t\<rparr> \<and>
            eventResultHandlers s2 requestId = Some p \<and>
            promises s3 p =
              Some \<lparr>outcome = Rejected (Some (JStr ''Response was not obtained in 60s'')),
                    timeout = t\<rparr> \<and>
            eventResultHandlers s3 requestId = None \<and>
            (\<forall>w data frame later.
               JSON_parse E data = Some frame \<and> truthy frame \<and>
               field frame ''requestId'' = Some (JStr requestId) \<and> requestId \<noteq> [] \<longrightarrow>
               promises (step E (SocketMessage w data later) s3) = promises s3 \<and>
               delivered s3 (step E (SocketMessage w data later) s3) = [] \<and>
               step E (SocketMessage w data later) s3 =
                 s3\<lparr>trace := trace (step E (SocketMessage w data later) s3)\<rparr> \<and>
               (\<exists>logs. trace (step E (SocketMessage w data later) s3) = trace s3 @ logs \<and>
                       list_all is_log logs))"
proof -
  define p where "p = nextPromise s"
  define t where "t = nextTimer s"
  define s2 where
    "s2 = fold (step E) evs (sendEventWithResponse E requestId requestEvent isSub s)"
  define s3 where "s3 = step E (TimerFires t now ctor) s2"
  have "pending_request requestId p t (sendEventWithResponse E requestId requestEvent isSub s)"
    unfolding p_def t_def by (rule pending_after_call[OF assms(1,2)])
  then have pend: "pending_request requestId p t s2"
    unfolding s2_def using assms(3) by (intro pending_run) (simp_all add: t_def)
  then have before: "timers s2 t = Some (Timeout (ResponseTimeoutCb requestId p) 60000)"
    "promises s2 p = Some \<lparr>outcome = Pending, timeout = t\<rparr>"
    "eventResultHandlers s2 requestId = Some p"
    by (simp_all add: pending_request_def)
  note fired = pending_timer_fires[OF pend, of E now ctor, folded s3_def]
  have late: "promises (step E (SocketMessage w data later) s3) = promises s3 \<and>
               delivered s3 (step E (SocketMessage w data later) s3) = [] \<and>
               step E (SocketMessage w data later) s3 =
                 s3\<lparr>trace := trace (step E (SocketMessage w data later) s3)\<rparr> \<and>
               (\<exists>logs. trace (step E (SocketMessage w data later) s3) = trace s3 @ logs \<and>
                       list_all is_log logs)"
    if f: "JSON_parse E data = Some frame" "truthy frame"
      "field frame ''requestId'' = Some (JStr requestId)" "requestId \<noteq> []"
    for w data frame later
  proof -
    have tr: "truthy_opt (field frame ''requestId'')"
      using f(3,4) by (simp add: truthy_opt_def)
    have st: "step E (SocketMessage w data later) s3 = processResponse frame s3"
      by (simp add: step_def receiveMessage_response[OF f(1,2) tr])
    have un: "map_get (eventResultHandlers s3) (field frame ''requestId'') = None"
      by (simp add: f(3) map_get_def fired(2))
    note u = processResponse_unknown[OF un]
    have "promises (processResponse frame s3) = promises s3"
      by (subst u(1)) simp
    with u show ?thesis unfolding st by simp
  qed
  show ?thesis
    unfolding Let_def
    using before fired late
    unfolding p_def t_def s2_def s3_def by blast
qed

theorem unanswered_request_times_out_witness:
  "ids_issued fresh_client \<and> unused_id ''r1'' fresh_client \<and>
   \<not> concerns example_env ''r1'' (nextTimer fresh_client) (SocketOpen 0 10) \<and>
   \<not> concerns example_env ''r1'' (nextTimer fresh_client) (CallSendEvent note_event False) \<and>
   \<not> concerns example_env ''r1'' (nextTimer fresh_client) (TimerFires 2 5010 True) \<and>
   nextPromise fresh_client = 0 \<and> nextTimer fresh_client = 1 \<and>
   promises
     (step example_env (TimerFires 1 60000 True)
        (fold (step example_env)
           [SocketOpen 0 10, CallSendEvent note_event False, TimerFires 2 5010 True]
           (sendEventWithResponse example_env ''r1'' request_r1 False fresh_client))) 0 =
     Some \<lparr>outcome = Rejected (Some (JStr ''Response was not obtained in 60s'')), timeout = 1\<rparr> \<and>
   eventResultHandlers
     (step example_env (TimerFires 1 60000 True)
        (fold (step example_env)
           [SocketOpen 0 10, CallSendEvent note_event False, TimerFires 2 5010 True]
           (sendEventWithResponse example_env ''r1'' request_r1 False fresh_client))) ''r1'' = None \<and>
   promises
     (step example_env
        (SocketMessage 0 ''{type:Xresult,requestId:r1,state:OK,value:42}'' 60100)
        (step example_env (TimerFires 1 60000 True)
           (fold (step example_env)
              [SocketOpen 0 10, CallSendEvent note_event False, TimerFires 2 5010 True]
              (sendEventWithResponse example_env ''r1'' request_r1 False fresh_client)))) 0 =
     Some \<lparr>outcome = Rejected (Some (JStr ''Response was not obtained in 60s'')), timeout = 1\<rparr>"
proof -
  let ?evs = "[SocketOpen 0 10, CallSendEvent note_event False, TimerFires 2 5010 True]"
  have h1: "ids_issued fresh_client"
    unfolding fresh_client_def by (rule ids_issued_new)
  have n: "nextPromise fresh_client = 0" "nextTimer fresh_client = 1"
    by (simp_all add: example_defs ws_defs)
  have h2: "unused_id ''r1'' fresh_client"
    by (simp add: unused_id_def example_defs ws_defs)
  have h3: "\<forall>ev \<in> set ?evs. \<not> concerns example_env ''r1'' (nextTimer fresh_client) ev"
    by (simp add: concerns_def n)
  have parse: "JSON_parse example_env ''{type:Xresult,requestId:r1,state:OK,value:42}'' =
      Some response_r1"
    "truthy response_r1" "field response_r1 ''requestId'' = Some (JStr ''r1'')"
    by (simp_all add: example_defs)
  note T = unanswered_request_times_out[OF h1 h2 h3, where requestEvent = request_r1
      and isSub = False and now = 60000 and ctor = True, unfolded Let_def n]
  note L = T[THEN conjunct2, THEN conjunct2, THEN conjunct2, THEN conjunct2, THEN conjunct2,
      THEN spec, THEN spec, THEN spec, THEN spec, THEN mp,
      of "''{type:Xresult,requestId:r1,state:OK,value:42}''" response_r1 0 60100]
  show ?thesis
    using T L h1 h2 h3 n parse by simp
qed

subsection \<open>Heartbeat and reconnect\<close>

lemma unlogged_simps [simp]:
  "unlogged [] = []"
  "unlogged (Log l f a # es) = unlogged es"
  "unlogged (Send w m # es) = Send w m # unlogged es"
  "unlogged (Close w c r # es) = Close w c r # unlogged es"
  "unlogged (xs @ ys) = unlogged xs @ unlogged ys"
  by (simp_all add: unlogged_def)

lemma unlogged_logs: "list_all is_log logs \<Longrightarrow> unlogged logs = []"
  by (induction logs) (auto simp: unlogged_def)

lemma heartbeat_tick_trace:
  assumes "socket s = Some w" and "lastIncomeHeartbeat s = Some seen"
  shows "\<exists>es. trace (heartbeat_tick E now s) = trace s @ es \<and>
           unlogged es =
             (if connected s then [Send w (JSON_stringify E heartbeat_event)] else []) @
             (if now - seen > WS_MISSING_HEARTBEAT_TIMEOUT_MS E
              then [Close w 1000 (Some ''Missing heartbeat'')] else [])"
    and "now - seen > WS_MISSING_HEARTBEAT_TIMEOUT_MS E \<Longrightarrow> \<not> connected (heartbeat_tick E now s)"
    and "socket (heartbeat_tick E now s) = Some w"
    and "nextTimer (heartbeat_tick E now s) = nextTimer s"
    and "nextSocket (heartbeat_tick E now s) = nextSocket s"
proof -
  define s1 where "s1 = (if connected s then sendEvent E heartbeat_event False s else s)"
  have s1: "\<exists>es. s1 = s\<lparr>sockets := sockets s1, trace := trace s @ es\<rparr> \<and>
      unlogged es = (if connected s then [Send w (JSON_stringify E heartbeat_event)] else [])"
  proof (cases "connected s")
    case False
    then show ?thesis by (intro exI[of _ "[]"]) (simp add: s1_def)
  next
    case True
    then have o: "readyState (sockets s w) = OPEN" using assms(1) by (simp add: connected_def)
    from sendMessageToSocket_up[OF assms(1) o, of "JSON_stringify E heartbeat_event" False]
    obtain logs where l: "list_all is_log logs" and
      e: "sendMessageToSocket (JSON_stringify E heartbeat_event) False s =
          s\<lparr>sockets := (sockets s)(w := after_write (sockets s w)),
            trace := trace s @ logs @ [Send w (JSON_stringify E heartbeat_event)]\<rparr>" by blast
    show ?thesis
      using True
      by (intro exI[of _ "logs @ [Send w (JSON_stringify E heartbeat_event)]"])
         (simp add: s1_def sendEvent_def e unlogged_logs[OF l])
  qed
  then obtain es1 where
    e1: "s1 = s\<lparr>sockets := sockets s1, trace := trace s @ es1\<rparr>" and
    u1: "unlogged es1 = (if connected s then [Send w (JSON_stringify E heartbeat_event)] else [])"
    by blast
  have f1: "socket s1 = Some w" "lastIncomeHeartbeat s1 = Some seen" "nextTimer s1 = nextTimer s"
    "nextSocket s1 = nextSocket s" "trace s1 = trace s @ es1" "enabledInternal s1 = enabledInternal s"
    using assms by (subst e1, simp)+
  have tick: "heartbeat_tick E now s =
      (if now - seen > WS_MISSING_HEARTBEAT_TIMEOUT_MS E
       then socket_close w 1000 (Some ''Missing heartbeat'')
              (log_internal Warn ''Close socket due to missing heartbeat'' [] s1)
       else s1)"
    by (simp add: heartbeat_tick_def heartbeat_event_def s1_def[unfolded heartbeat_event_def, symmetric]
        Let_def isHeartbeatTimeout_def f1 log_internal_def emit_def)
  obtain l2 where l2: "log_internal Warn ''Close socket due to missing heartbeat'' [] s1 =
      s1\<lparr>trace := trace s1 @ l2\<rparr>" "list_all is_log l2"
    using log_internal_extends[of Warn "''Close socket due to missing heartbeat''" "[]" s1] by blast
  show "\<exists>es. trace (heartbeat_tick E now s) = trace s @ es \<and>
           unlogged es =
             (if connected s then [Send w (JSON_stringify E heartbeat_event)] else []) @
             (if now - seen > WS_MISSING_HEARTBEAT_TIMEOUT_MS E
              then [Close w 1000 (Some ''Missing heartbeat'')] else [])"
  proof (cases "now - seen > WS_MISSING_HEARTBEAT_TIMEOUT_MS E")
    case True
    then show ?thesis
      by (intro exI[of _ "es1 @ l2 @ [Close w 1000 (Some ''Missing heartbeat'')]"])
         (simp add: tick l2 socket_close_def emit_def f1 u1 unlogged_logs[OF l2(2)])
  next
    case False
    then show ?thesis
      by (intro exI[of _ es1]) (simp add: tick f1 u1)
  qed
  show "\<not> connected (heartbeat_tick E now s)" if "now - seen > WS_MISSING_HEARTBEAT_TIMEOUT_MS E"
    using that
    by (simp add: tick l2 socket_close_def emit_def connected_def f1 closing_def)
  show "socket (heartbeat_tick E now s) = Some w"
    by (simp add: tick l2 socket_close_def emit_def f1)
  show "nextTimer (heartbeat_tick E now s) = nextTimer s"
    by (simp add: tick l2 socket_close_def emit_def f1)
  show "nextSocket (heartbeat_tick E now s) = nextSocket s"
    by (simp add: tick l2 socket_close_def emit_def f1)
qed

lemma close_of_owned_socket:
  assumes "socket s = Some w"
  shows "timers (step E (SocketClose w) s) (nextTimer s) = Some (Timeout ReconnectCb 1000)"
    and "reconnectTimeout (step E (SocketClose w) s) = nextTimer s"
    and "socket (step E (SocketClose w) s) = Some w"
    and "readyState (sockets (step E (SocketClose w) s) w) = CLOSED"
    and "nextSocket (step E (SocketClose w) s) = nextSocket s"
    and "nextTimer (step E (SocketClose w) s) = Suc (nextTimer s)"
  using assms
  by (simp_all add: step_def platform_closed_def onDisconnect_def reconnect_def setTimeout_def
      log_internal_def emit_def)

lemma stopSentHeartBeat_fields:
  "socket (stopSentHeartBeat s) = socket s"
  "sockets (stopSentHeartBeat s) = sockets s"
  "nextSocket (stopSentHeartBeat s) = nextSocket s"
  "nextTimer (stopSentHeartBeat s) = nextTimer s"
  "reconnectTimeout (stopSentHeartBeat s) = reconnectTimeout s"
  "trace (stopSentHeartBeat s) = trace s"
  "heartbeatSendingInterval s \<noteq> Some 0 \<Longrightarrow> heartbeatSendingInterval (stopSentHeartBeat s) = None"
  by (simp_all add: stopSentHeartBeat_def clearInterval_def split: option.splits)

lemma reconnect_timer_fires:
  assumes "socket s = Some w" and "readyState (sockets s w) = CLOSED"
    and "timers s t = Some (Timeout ReconnectCb 1000)"
  shows "ctor \<Longrightarrow> socket (step E (TimerFires t now ctor) s) = Some (nextSocket s)"
    and "ctor \<Longrightarrow> readyState (sockets (step E (TimerFires t now ctor) s) (nextSocket s)) = CONNECTING"
    and "\<not> ctor \<Longrightarrow> socket (step E (TimerFires t now ctor) s) = None"
    and "\<not> ctor \<Longrightarrow> timers (step E (TimerFires t now ctor) s) (nextTimer s) =
           Some (Timeout ReconnectCb 1000)"
proof -
  define s0 where "s0 = clearTimeout t s"
  have f0: "socket s0 = Some w" "readyState (sockets s0 w) = CLOSED"
    "nextSocket s0 = nextSocket s" "nextTimer s0 = nextTimer s"
    using assms by (simp_all add: s0_def clearTimeout_def)
  have st: "step E (TimerFires t now c) s = connect E c (disconnect s0)" for c
    using assms(3) by (simp add: step_def run_callback_def reconnect_fire_def s0_def)
  have d: "disconnect s0 = (stopSentHeartBeat s0)\<lparr>socket := None\<rparr>"
    using f0 by (simp add: disconnect_def Let_def stopSentHeartBeat_fields)
  define s1 where "s1 = (stopSentHeartBeat s0)\<lparr>socket := None\<rparr>"
  have f1: "socket s1 = None" "nextSocket s1 = nextSocket s" "nextTimer s1 = nextTimer s"
    using f0 by (simp_all add: s1_def stopSentHeartBeat_fields)
  show "ctor \<Longrightarrow> socket (step E (TimerFires t now ctor) s) = Some (nextSocket s)"
    by (simp add: st d s1_def[symmetric] connect_def Let_def clearTimeout_def f1 log_internal_def emit_def)
  show "ctor \<Longrightarrow> readyState (sockets (step E (TimerFires t now ctor) s) (nextSocket s)) = CONNECTING"
    by (simp add: st d s1_def[symmetric] connect_def Let_def clearTimeout_def f1 log_internal_def emit_def)
  show "\<not> ctor \<Longrightarrow> socket (step E (TimerFires t now ctor) s) = None"
    by (simp add: st d s1_def[symmetric] connect_def Let_def clearTimeout_def f1 log_internal_def
        emit_def reconnect_def setTimeout_def)
  show "\<not> ctor \<Longrightarrow> timers (step E (TimerFires t now ctor) s) (nextTimer s) =
           Some (Timeout ReconnectCb 1000)"
    by (simp add: st d s1_def[symmetric] connect_def Let_def clearTimeout_def f1 log_internal_def
        emit_def reconnect_def setTimeout_def)
qed

text \<open>
  C8. Let the heartbeat interval fire while the client owns socket \<open>w\<close> and the last
  heartbeat was received at \<open>seen\<close>. Apart from log lines the turn does this, in this
  order: it writes the heartbeat message to the socket if the client is connected,
  and, if more than the threshold has passed since \<open>seen\<close>, it calls \<^verbatim>\<open>close\<close> on the
  socket with code 1000 and the reason \<^verbatim>\<open>Missing heartbeat\<close>. In that case the client
  is no longer connected after the turn; the \<^verbatim>\<open>close\<close> event of the socket then
  schedules a reconnect after 1000 ms; and when that timer fires, the client owns a
  new socket that is connecting, or, if no socket can be created, owns none and has
  the next reconnect scheduled.
\<close>

theorem missing_heartbeat_forces_reconnect:
  assumes "socket s = Some w" and "lastIncomeHeartbeat s = Some seen"
    and "timers s i = Some (Interval HeartbeatCb ms)"
  shows "let s1 = step E (TimerFires i now c) s;
             s2 = step E (SocketClose w) s1;
             s3 = step E (TimerFires (nextTimer s) later ctor) s2
         in (\<exists>es. trace s1 = trace s @ es \<and>
               unlogged es =
                 (if connected s then [Send w (JSON_stringify E heartbeat_event)] else []) @
                 (if now - seen > WS_MISSING_HEARTBEAT_TIMEOUT_MS E
                  then [Close w 1000 (Some ''Missing heartbeat'')] else [])) \<and>
            (now - seen > WS_MISSING_HEARTBEAT_TIMEOUT_MS E \<longrightarrow>
               \<not> connected s1 \<and>
               timers s2 (nextTimer s) = Some (Timeout ReconnectCb 1000) \<and>
               reconnectTimeout s2 = nextTimer s \<and>
               (if ctor
                then socket s3 = Some (nextSocket s) \<and>
                     readyState (sockets s3 (nextSocket s)) = CONNECTING
                else socket s3 = None \<and>
                     timers s3 (Suc (nextTimer s)) = Some (Timeout ReconnectCb 1000)))"
proof -
  define s1 where "s1 = step E (TimerFires i now c) s"
  define s2 where "s2 = step E (SocketClose w) s1"
  define s3 where "s3 = step E (TimerFires (nextTimer s) later ctor) s2"
  have s1: "s1 = heartbeat_tick E now s"
    using assms(3) by (simp add: s1_def step_def run_callback_def)
  note tick = heartbeat_tick_trace[OF assms(1,2), of E now, folded s1]
  note closed = close_of_owned_socket[OF tick(3), of E, folded s2_def, unfolded tick(4,5)]
  note fired = reconnect_timer_fires[OF closed(3,4,1), of ctor E later, folded s3_def,
      unfolded closed(5,6)]
  show ?thesis
    unfolding Let_def s1_def[symmetric] s2_def[symmetric] s3_def[symmetric]
    using tick(1,2) closed(1,2) fired by (cases ctor) simp_all
qed

theorem missing_heartbeat_forces_reconnect_witness:
  "socket beating = Some 0 \<and> lastIncomeHeartbeat beating = Some 0 \<and>
   timers beating 1 = Some (Interval HeartbeatCb 5000) \<and>
   nextTimer beating = 2 \<and> nextSocket beating = 1 \<and> connected beating \<and>
   (20000::int) - 0 > WS_MISSING_HEARTBEAT_TIMEOUT_MS example_env \<and>
   \<not> connected (step example_env (TimerFires 1 20000 True) beating) \<and>
   socket
     (step example_env (TimerFires 2 21100 True)
        (step example_env (SocketClose 0)
           (step example_env (TimerFires 1 20000 True) beating))) = Some 1 \<and>
   readyState
     (sockets
        (step example_env (TimerFires 2 21100 True)
           (step example_env (SocketClose 0)
              (step example_env (TimerFires 1 20000 True) beating))) 1) = CONNECTING"
proof -
  have h: "socket beating = Some 0" "lastIncomeHeartbeat beating = Some 0"
    "timers beating 1 = Some (Interval HeartbeatCb 5000)"
    by (simp_all add: beating_def step_def example_defs2 ws_defs2)
  have n: "nextTimer beating = 2" "nextSocket beating = 1" "connected beating"
    "(20000::int) - 0 > WS_MISSING_HEARTBEAT_TIMEOUT_MS example_env"
    by (simp_all add: beating_def step_def example_defs2 ws_defs2)
  show ?thesis
    using missing_heartbeat_forces_reconnect[OF h, where E = example_env and now = 20000
        and c = True and later = 21100 and ctor = True, unfolded Let_def] h n
    by simp
qed

subsection \<open>Error and close signals\<close>

lemmas step_defs = step_def run_callback_def reconnect_fire_def disconnect_def reconnect_def
  on_error_def onDisconnect_def socket_close_def closing_def response_timeout_def
  heartbeat_tick_def isHeartbeatTimeout_def

text \<open>
  C6 as stated fails on the code. The replaced socket 0 reports an error while
  socket 1 is the owned, open socket: its \<^verbatim>\<open>close\<close> event is ignored, but its
  \<^verbatim>\<open>error\<close> event schedules a reconnect, and when that timer fires the open socket 1
  is closed and replaced by socket 2. And an \<^verbatim>\<open>error\<close> followed by a \<^verbatim>\<open>close\<close> event
  of the owned socket 1 leave two reconnect timers pending.
\<close>

theorem error_of_replaced_socket_reconnects:
  "socket replaced = Some 1 \<and> connected replaced \<and> nextTimer replaced = 3 \<and>
   step example_env (SocketClose 0) replaced = platform_closed 0 replaced \<and>
   timers (step example_env (SocketError 0 None) replaced) 3 = Some (Timeout ReconnectCb 1000) \<and>
   socket (fold (step example_env) [SocketError 0 None, TimerFires 3 2100 True] replaced) =
     Some 2 \<and>
   unlogged (drop (length (trace replaced))
     (trace (fold (step example_env) [SocketError 0 None, TimerFires 3 2100 True] replaced))) =
     [Close 1 1000 None,
      NewWebSocket 2 ''wss://device:443/api/public/ws/control?label=Script&kill_timeout=15''] \<and>
   timers (fold (step example_env) [SocketError 1 None, SocketClose 1] replaced) 3 =
     Some (Timeout ReconnectCb 1000) \<and>
   timers (fold (step example_env) [SocketError 1 None, SocketClose 1] replaced) 4 =
     Some (Timeout ReconnectCb 1000)"
  by (simp add: replaced_def step_defs example_defs2 ws_defs2 unlogged_def)

lemma unlogged_Cons: "unlogged (e # es) = (if is_log e then unlogged es else e # unlogged es)"
  by (simp add: unlogged_def)

lemma reconnect_fields:
  "timers (reconnect s) = (timers s)(nextTimer s \<mapsto> Timeout ReconnectCb 1000)"
  "reconnectTimeout (reconnect s) = nextTimer s"
  "nextTimer (reconnect s) = Suc (nextTimer s)"
  "socket (reconnect s) = socket s"
  "sockets (reconnect s) = sockets s"
  "nextSocket (reconnect s) = nextSocket s"
  "trace (reconnect s) = trace s"
  "hostname (reconnect s) = hostname s"
  "apiKey (reconnect s) = apiKey s"
  by (simp_all add: reconnect_def setTimeout_def)

lemma signal_of_owned_socket:
  assumes "socket s = Some w"
  shows "timers (step E (SocketClose w) s) = (timers s)(nextTimer s \<mapsto> Timeout ReconnectCb 1000)"
    and "timers (step E (SocketError w' message) s) =
           (timers s)(nextTimer s \<mapsto> Timeout ReconnectCb 1000)"
    and "socket (step E (SocketClose w) s) = Some w"
    and "socket (step E (SocketError w' message) s) = Some w"
  using assms
  by (simp_all add: step_def platform_closed_def onDisconnect_def on_error_def reconnect_fields
      log_internal_def emit_def)

lemma error_then_close:
  assumes "socket s = Some w"
  shows "timers (step E (SocketClose w) (step E (SocketError w message) s)) =
           (timers s)(nextTimer s \<mapsto> Timeout ReconnectCb 1000,
                      Suc (nextTimer s) \<mapsto> Timeout ReconnectCb 1000)"
    and "reconnectTimeout (step E (SocketClose w) (step E (SocketError w message) s)) =
           Suc (nextTimer s)"
    and "socket (step E (SocketClose w) (step E (SocketError w message) s)) = Some w"
    and "readyState (sockets (step E (SocketClose w) (step E (SocketError w message) s)) w) = CLOSED"
    and "nextSocket (step E (SocketClose w) (step E (SocketError w message) s)) = nextSocket s"
    and "nextTimer (step E (SocketClose w) (step E (SocketError w message) s)) = Suc (Suc (nextTimer s))"
    and "hostname (step E (SocketClose w) (step E (SocketError w message) s)) = hostname s"
    and "apiKey (step E (SocketClose w) (step E (SocketError w message) s)) = apiKey s"
  using assms
  by (simp_all add: step_def platform_closed_def onDisconnect_def on_error_def reconnect_fields
      log_internal_def emit_def)

lemma stopSentHeartBeat_keeps:
  "timers s t = None \<Longrightarrow> timers (stopSentHeartBeat s) t = None"
  "hostname (stopSentHeartBeat s) = hostname s"
  "apiKey (stopSentHeartBeat s) = apiKey s"
  by (simp_all add: stopSentHeartBeat_def clearInterval_def split: option.splits)

lemma first_reconnect_timer_fires:
  assumes "socket s = Some w" and "readyState (sockets s w) = CLOSED"
    and "timers s t = Some (Timeout ReconnectCb 1000)"
    and "reconnectTimeout s = t'"
  shows "socket (step E (TimerFires t now True) s) = Some (nextSocket s)"
    and "readyState (sockets (step E (TimerFires t now True) s) (nextSocket s)) = CONNECTING"
    and "timers (step E (TimerFires t now True) s) t = None"
    and "timers (step E (TimerFires t now True) s) t' = None"
    and "\<exists>es. trace (step E (TimerFires t now True) s) = trace s @ es \<and>
           unlogged es = [NewWebSocket (nextSocket s) (getWsUrl E (hostname s) (apiKey s))]"
proof -
  define s0 where "s0 = clearTimeout t s"
  have f0: "socket s0 = Some w" "readyState (sockets s0 w) = CLOSED"
    "nextSocket s0 = nextSocket s" "nextTimer s0 = nextTimer s" "timers s0 t = None"
    "reconnectTimeout s0 = t'" "trace s0 = trace s" "hostname s0 = hostname s" "apiKey s0 = apiKey s"
    using assms by (simp_all add: s0_def clearTimeout_def)
  have st: "step E (TimerFires t now True) s = connect E True (disconnect s0)"
    using assms(3) by (simp add: step_def run_callback_def reconnect_fire_def s0_def)
  define s1 where "s1 = (stopSentHeartBeat s0)\<lparr>socket := None\<rparr>"
  have d: "disconnect s0 = s1"
    using f0 by (simp add: disconnect_def Let_def stopSentHeartBeat_fields s1_def)
  have f1: "socket s1 = None" "nextSocket s1 = nextSocket s" "nextTimer s1 = nextTimer s"
    "timers s1 t = None" "reconnectTimeout s1 = t'" "trace s1 = trace s"
    "hostname s1 = hostname s" "apiKey s1 = apiKey s"
    using f0 by (simp_all add: s1_def stopSentHeartBeat_fields stopSentHeartBeat_keeps)
  define l where "l = (if enabledInternal s1 then [Log Info ''Connecting to websocket'' []] else [])"
  have c: "socket (connect E True s1) = Some (nextSocket s)"
    "sockets (connect E True s1) =
       (sockets s1)(nextSocket s := \<lparr>readyState = CONNECTING, writesLeft = None\<rparr>)"
    "timers (connect E True s1) = (timers s1)(t' := None)"
    "trace (connect E True s1) =
       trace s @ [NewWebSocket (nextSocket s) (getWsUrl E (hostname s) (apiKey s))] @ l"
    by (simp_all add: connect_def Let_def f1 clearTimeout_def log_internal_def emit_def l_def)
  have ll: "unlogged l = []" by (simp add: l_def)
  show "socket (step E (TimerFires t now True) s) = Some (nextSocket s)"
    by (simp add: st d c)
  show "readyState (sockets (step E (TimerFires t now True) s) (nextSocket s)) = CONNECTING"
    by (simp add: st d c)
  show "timers (step E (TimerFires t now True) s) t = None"
    by (simp add: st d c f1)
  show "timers (step E (TimerFires t now True) s) t' = None"
    by (simp add: st d c)
  show "\<exists>es. trace (step E (TimerFires t now True) s) = trace s @ es \<and>
           unlogged es = [NewWebSocket (nextSocket s) (getWsUrl E (hostname s) (apiKey s))]"
    by (intro exI[of _ "[NewWebSocket (nextSocket s) (getWsUrl E (hostname s) (apiKey s))] @ l"])
       (simp add: st d c ll unlogged_Cons)
qed

text \<open>
  C6, amended. A \<^verbatim>\<open>close\<close> event of a socket that is not the owned one changes
  nothing in the client. Each \<^verbatim>\<open>close\<close> or \<^verbatim>\<open>error\<close> event of the owned socket
  schedules one reconnect after 1000 ms and leaves the socket owned. After an
  \<^verbatim>\<open>error\<close> and a \<^verbatim>\<open>close\<close> event of the owned socket two such timers are pending;
  when the first fires (and a socket can be created) the old socket is dropped, the
  second timer is cancelled, one new socket is created, which is connecting, and
  the cancelled timer does nothing any more.
\<close>

theorem signals_schedule_reconnect:
  assumes "socket s = Some w"
  shows "(\<forall>v. v \<noteq> w \<longrightarrow> step E (SocketClose v) s = platform_closed v s) \<and>
         timers (step E (SocketClose w) s) =
           (timers s)(nextTimer s \<mapsto> Timeout ReconnectCb 1000) \<and>
         socket (step E (SocketClose w) s) = Some w \<and>
         timers (step E (SocketError w message) s) =
           (timers s)(nextTimer s \<mapsto> Timeout ReconnectCb 1000) \<and>
         socket (step E (SocketError w message) s) = Some w \<and>
         (let s2 = step E (SocketClose w) (step E (SocketError w message) s);
              s3 = step E (TimerFires (nextTimer s) now True) s2
          in timers s2 = (timers s)(nextTimer s \<mapsto> Timeout ReconnectCb 1000,
                                    Suc (nextTimer s) \<mapsto> Timeout ReconnectCb 1000) \<and>
             socket s3 = Some (nextSocket s) \<and>
             readyState (sockets s3 (nextSocket s)) = CONNECTING \<and>
             timers s3 (nextTimer s) = None \<and>
             timers s3 (Suc (nextTimer s)) = None \<and>
             (\<exists>es. trace s3 = trace s2 @ es \<and>
                   unlogged es =
                     [NewWebSocket (nextSocket s) (getWsUrl E (hostname s) (apiKey s))]) \<and>
             step E (TimerFires (Suc (nextTimer s)) later ctor) s3 = s3)"
proof -
  define s2 where "s2 = step E (SocketClose w) (step E (SocketError w message) s)"
  define s3 where "s3 = step E (TimerFires (nextTimer s) now True) s2"
  have stale: "step E (SocketClose v) s = platform_closed v s" if "v \<noteq> w" for v
    using that assms by (simp add: step_def onDisconnect_def platform_closed_def)
  note one = signal_of_owned_socket[OF assms]
  note two = error_then_close[OF assms, where E = E and message = message, folded s2_def]
  have armed: "timers s2 (nextTimer s) = Some (Timeout ReconnectCb 1000)"
    by (simp add: two(1))
  note fired = first_reconnect_timer_fires[OF two(3) two(4) armed two(2), where E = E
      and now = now, folded s3_def, unfolded two(5,7,8)]
  have idle: "step E (TimerFires (Suc (nextTimer s)) later ctor) s3 = s3"
    by (simp add: step_def fired(4))
  show ?thesis
    unfolding Let_def s2_def[symmetric] s3_def[symmetric]
    using stale one two(1) fired idle by simp
qed

theorem signals_schedule_reconnect_witness:
  "socket replaced = Some 1 \<and> nextTimer replaced = 3 \<and> nextSocket replaced = 2 \<and>
   step example_env (SocketClose 0) replaced = platform_closed 0 replaced \<and>
   timers (step example_env (SocketClose 1) replaced) 3 = Some (Timeout ReconnectCb 1000) \<and>
   socket
     (step example_env (TimerFires 3 2100 True)
        (step example_env (SocketClose 1) (step example_env (SocketError 1 None) replaced))) =
     Some 2 \<and>
   timers
     (step example_env (TimerFires 3 2100 True)
        (step example_env (SocketClose 1) (step example_env (SocketError 1 None) replaced))) 4 =
     None"
proof -
  have h: "socket replaced = Some 1"
    by (simp add: replaced_def step_defs example_defs2 ws_defs2)
  have n: "nextTimer replaced = 3" "nextSocket replaced = 2"
    by (simp_all add: replaced_def step_defs example_defs2 ws_defs2)
  note T = signals_schedule_reconnect[OF h, where E = example_env and message = None
      and now = 2100 and later = 3100 and ctor = True, unfolded Let_def n]
  have "(0::nat) \<noteq> 1" by simp
  note S = T[THEN conjunct1, THEN spec, THEN mp, OF this]
  show ?thesis
    using T S h n by simp
qed

subsection \<open>The disconnect buffer across turns\<close>

lemma buffer_kept:
  "disconnectEventBuffer (emit e s) = disconnectEventBuffer s"
  "disconnectEventBuffer (log_internal l f a s) = disconnectEventBuffer s"
  "disconnectEventBuffer (setTimeout cb ms s) = disconnectEventBuffer s"
  "disconnectEventBuffer (setInterval cb ms s) = disconnectEventBuffer s"
  "disconnectEventBuffer (clearTimeout t s) = disconnectEventBuffer s"
  "disconnectEventBuffer (clearInterval t s) = disconnectEventBuffer s"
  "disconnectEventBuffer (socket_send w m s) = disconnectEventBuffer s"
  "disconnectEventBuffer (socket_close w c r s) = disconnectEventBuffer s"
  "disconnectEventBuffer (reject p reason s) = disconnectEventBuffer s"
  "disconnectEventBuffer (resolve p v s) = disconnectEventBuffer s"
  "disconnectEventBuffer (reconnect s) = disconnectEventBuffer s"
  "disconnectEventBuffer (stopSentHeartBeat s) = disconnectEventBuffer s"
  "disconnectEventBuffer (platform_open w s) = disconnectEventBuffer s"
  "disconnectEventBuffer (platform_closed w s) = disconnectEventBuffer s"
  "disconnectEventBuffer (addEventHandler ty h s) = disconnectEventBuffer s"
  by (simp_all add: emit_def log_internal_def setTimeout_def setInterval_def clearTimeout_def
      clearInterval_def socket_send_def socket_close_def reject_def resolve_def reconnect_def
      stopSentHeartBeat_def platform_open_def platform_closed_def addEventHandler_def
      split: option.splits)

lemma buffer_kept_receive:
  "disconnectEventBuffer (result_handler p r s) = disconnectEventBuffer s"
  "disconnectEventBuffer (response_timeout rid p s) = disconnectEventBuffer s"
  "disconnectEventBuffer (invoke h m now s) = disconnectEventBuffer s"
  "disconnectEventBuffer (processResponse frame s) = disconnectEventBuffer s"
  "disconnectEventBuffer (receiveMessage E data now s) = disconnectEventBuffer s"
proof -
  show a: "disconnectEventBuffer (result_handler p r s) = disconnectEventBuffer s" for p r s
    by (simp add: result_handler_def buffer_kept)
  show "disconnectEventBuffer (response_timeout rid p s) = disconnectEventBuffer s"
    by (simp add: response_timeout_def buffer_kept)
  show b: "disconnectEventBuffer (invoke h m now s) = disconnectEventBuffer s" for h m now s
    by (simp add: invoke_def buffer_kept split: event_handler.splits)
  show c: "disconnectEventBuffer (processResponse frame s) = disconnectEventBuffer s" for frame s
    by (simp add: processResponse_def Let_def a buffer_kept split: option.splits)
  show "disconnectEventBuffer (receiveMessage E data now s) = disconnectEventBuffer s"
    by (simp add: receiveMessage_def b c buffer_kept split: option.splits)
qed

lemma buffer_kept_connection:
  "disconnectEventBuffer (disconnect s) = disconnectEventBuffer s"
  "disconnectEventBuffer (connect E ctor s) = disconnectEventBuffer s"
  "disconnectEventBuffer (onDisconnect w s) = disconnectEventBuffer s"
  "disconnectEventBuffer (on_error message s) = disconnectEventBuffer s"
  by (simp_all add: disconnect_def connect_def onDisconnect_def on_error_def Let_def buffer_kept
      split: option.splits)

lemma buffer_grows_send:
  "\<exists>xs. disconnectEventBuffer (sendMessageToSocket m b s) = disconnectEventBuffer s @ xs"
  by (simp add: sendMessageToSocket_def Let_def buffer_kept split: option.splits)

lemma buffer_grows_sendEvent:
  "\<exists>xs. disconnectEventBuffer (sendEvent E message b s) = disconnectEventBuffer s @ xs"
proof -
  define s1 where "s1 = (if b then (let s0 = log_internal Debug ''Subscription for event: {}''
                                 [Some (JStr (JSON_stringify E message))] s
                      in s0\<lparr>subscriptionEvents := subscriptionEvents s0 @ [JSON_stringify E message]\<rparr>)
                else s)"
  have 1: "disconnectEventBuffer s1 = disconnectEventBuffer s"
    by (simp add: s1_def Let_def buffer_kept)
  have 2: "sendEvent E message b s = sendMessageToSocket (JSON_stringify E message) b s1"
    by (simp add: sendEvent_def s1_def Let_def)
  show ?thesis
    using buffer_grows_send[of "JSON_stringify E message" b s1] by (simp add: 1 2)
qed

lemma buffer_kept_tick:
  "disconnectEventBuffer (heartbeat_tick E now s) = disconnectEventBuffer s"
proof -
  have "disconnectEventBuffer (sendEvent E m False s) = disconnectEventBuffer s" if "connected s" for m
    using that
    by (simp add: sendEvent_def sendMessageToSocket_def Let_def buffer_kept split: option.splits)
  then show ?thesis
    by (simp add: heartbeat_tick_def Let_def buffer_kept split: option.splits)
qed

lemma buffer_grows_request:
  "\<exists>xs. disconnectEventBuffer (sendEventWithResponse E rid requestEvent b s) =
          disconnectEventBuffer s @ xs"
proof -
  define s4 where "s4 = (let p = nextPromise s;
          s1 = s\<lparr>promises := (promises s)(p \<mapsto> \<lparr>outcome = Pending, timeout = 0\<rparr>),
                 nextPromise := Suc p\<rparr>;
          s2 = s1\<lparr>eventResultHandlers := (eventResultHandlers s1)(rid \<mapsto> p)\<rparr>;
          t = nextTimer s2;
          s3 = setTimeout (ResponseTimeoutCb rid p) 60000 s2
      in s3\<lparr>promises := (promises s3)(p \<mapsto> \<lparr>outcome = Pending, timeout = t\<rparr>)\<rparr>)"
  have 1: "disconnectEventBuffer s4 = disconnectEventBuffer s"
    by (simp add: s4_def Let_def buffer_kept)
  have 2: "sendEventWithResponse E rid requestEvent b s = sendEvent E requestEvent b s4"
    by (simp add: sendEventWithResponse_def s4_def Let_def)
  show ?thesis
    using buffer_grows_sendEvent[of E requestEvent b s4] by (simp add: 1 2)
qed

lemma trace_extends_send: "\<exists>es. trace (sendMessageToSocket m b s) = trace s @ es"
  by (simp add: sendMessageToSocket_def Let_def log_internal_def emit_def socket_send_def
      split: option.splits)

lemma trace_extends_fold:
  "\<exists>es. trace (fold (\<lambda>m. sendMessageToSocket m b) ms s) = trace s @ es"
proof (induction ms arbitrary: s)
  case Nil
  show ?case by simp
next
  case (Cons m ms)
  obtain es1 where 1: "trace (sendMessageToSocket m b s) = trace s @ es1"
    using trace_extends_send by blast
  obtain es2 where "trace (fold (\<lambda>m. sendMessageToSocket m b) ms (sendMessageToSocket m b s)) =
      trace (sendMessageToSocket m b s) @ es2"
    using Cons.IH by blast
  then show ?case by (simp add: 1)
qed

lemma on_open_conserves:
  "mset (disconnectEventBuffer s) \<subseteq>#
     mset (disconnectEventBuffer (on_open E now s)) + mset (map snd (written s (on_open E now s)))"
proof -
  define s0 where "s0 = log_internal Info ''Websocket connected'' [] s"
  define s1 where "s1 = replaySubscriptions s0"
  obtain l0 where e0: "s0 = s\<lparr>trace := trace s @ l0\<rparr>"
    using log_internal_extends[of Info "''Websocket connected''" "[]" s] unfolding s0_def
    by blast
  have t0: "trace s0 = trace s @ l0" by (subst e0) simp
  have b0: "disconnectEventBuffer s0 = disconnectEventBuffer s"
    by (simp add: s0_def buffer_kept)
  obtain es1 where t1: "trace s1 = trace s0 @ es1"
    unfolding s1_def replaySubscriptions_def using trace_extends_fold by blast
  have b1: "disconnectEventBuffer s1 = disconnectEventBuffer s"
    by (simp add: s1_def replaySubscriptions_def replaySubscriptions_buffer b0)
  from fold_send_any[of "disconnectEventBuffer s1" "s1\<lparr>disconnectEventBuffer := []\<rparr>"]
  obtain k es where
    t: "trace (flushDisconnectBuffer s1) = trace s1 @ es" and
    w: "map snd (sends es) = take k (disconnectEventBuffer s1)" and
    b: "disconnectEventBuffer (flushDisconnectBuffer s1) = drop k (disconnectEventBuffer s1)"
    by (auto simp: flushDisconnectBuffer_def Let_def)
  have o: "on_open E now s =
      addEventHandler ''heartbeat'' HeartbeatStamp (startSendHeartBeat E now (flushDisconnectBuffer s1))"
    by (simp add: on_open_def onConnect_def s1_def s0_def)
  have tr: "trace (on_open E now s) = trace s @ l0 @ es1 @ es"
    by (simp add: o addEventHandler_def startSendHeartBeat_fields t t1 t0)
  have bf: "disconnectEventBuffer (on_open E now s) = drop k (disconnectEventBuffer s)"
    by (simp add: o addEventHandler_def startSendHeartBeat_fields b b1)
  have "written s (on_open E now s) = sends l0 @ sends es1 @ sends es"
    by (simp add: written_extends[OF tr] sends_append)
  then have "mset (map snd (written s (on_open E now s))) =
      mset (map snd (sends l0)) + mset (map snd (sends es1)) + mset (take k (disconnectEventBuffer s))"
    by (simp add: w b1)
  moreover have "mset (disconnectEventBuffer s) =
      mset (take k (disconnectEventBuffer s)) + mset (drop k (disconnectEventBuffer s))"
    by (metis append_take_drop_id mset_append)
  ultimately show ?thesis
    by (simp add: bf)
qed

lemma step_conserves:
  "mset (disconnectEventBuffer s) \<subseteq>#
     mset (disconnectEventBuffer (step E ev s)) + mset (map snd (written s (step E ev s)))"
proof -
  have grows: ?thesis if "disconnectEventBuffer (step E ev s) = disconnectEventBuffer s @ xs" for xs
    by (simp add: that)
  show ?thesis
  proof (cases ev)
    case (SocketOpen w now)
    have "written s (on_open E now (platform_open w s)) =
          written (platform_open w s) (on_open E now (platform_open w s))"
      by (simp add: written_def platform_open_def)
    with on_open_conserves[of "platform_open w s" E now] SocketOpen show ?thesis
      by (simp add: step_def buffer_kept)
  next
    case (SocketMessage w data now)
    then show ?thesis by (intro grows[of "[]"]) (simp add: step_def buffer_kept_receive)
  next
    case (SocketClose w)
    then show ?thesis
      by (intro grows[of "[]"]) (simp add: step_def buffer_kept_connection buffer_kept)
  next
    case (SocketError w message)
    then show ?thesis by (intro grows[of "[]"]) (simp add: step_def buffer_kept_connection)
  next
    case (TimerFires t now ctor)
    have "disconnectEventBuffer (run_callback E cb now ctor s') = disconnectEventBuffer s'" for cb s'
      by (cases cb)
         (simp_all add: run_callback_def reconnect_fire_def buffer_kept_connection
            buffer_kept_receive buffer_kept_tick)
    with TimerFires show ?thesis
      by (intro grows[of "[]"]) (simp add: step_def buffer_kept split: option.splits timer.splits)
  next
    case (CallSendEvent message b)
    with buffer_grows_sendEvent[of E message b s] show ?thesis
      by (auto simp: step_def intro: grows)
  next
    case (CallSendEventWithResponse rid requestEvent b)
    with buffer_grows_request[of E rid requestEvent b s] show ?thesis
      by (auto simp: step_def intro: grows)
  next
    case (CallAddEventHandler ty h)
    then show ?thesis by (intro grows[of "[]"]) (simp add: step_def buffer_kept)
  next
    case (CallSubscribe responseType call)
    then show ?thesis by (intro grows[of "[]"]) (simp add: step_def subscribe_fields)
  qed
qed

text \<open>
  C3. When the \<^verbatim>\<open>open\<close> event of the owned socket arrives (and writing does not
  close the socket), the listener writes to the socket every entry of the subscription registry, as stored and in registration
  order, and after the last of them every message of the disconnect buffer in the
  order it was queued, each once. The buffer is empty afterwards and the registry is
  as before, so the next connect writes the registry again and none of the messages
  that were buffered.
\<close>

theorem reconnect_replays_then_flushes:
  assumes "socket s = Some w" and "writesLeft (sockets s w) = None"
  shows "written s (step E (SocketOpen w now) s) =
           map (Pair w) (subscriptionEvents s) @ map (Pair w) (disconnectEventBuffer s) \<and>
         disconnectEventBuffer (step E (SocketOpen w now) s) = [] \<and>
         subscriptionEvents (step E (SocketOpen w now) s) = subscriptionEvents s \<and>
         written (step E (SocketOpen w now) s)
           (step E (SocketOpen w later) (step E (SocketOpen w now) s)) =
           map (Pair w) (subscriptionEvents s)"
proof -
  define s0 where "s0 = platform_open w s"
  have up: "link_up w s0"
    using assms by (simp add: s0_def platform_open_def link_up_def)
  have f0: "trace s0 = trace s" "subscriptionEvents s0 = subscriptionEvents s"
    "disconnectEventBuffer s0 = disconnectEventBuffer s"
    by (simp_all add: s0_def platform_open_def)
  define s1 where "s1 = on_open E now s0"
  have st: "step E (SocketOpen w now) s = s1"
    by (simp add: step_def s1_def s0_def)
  from on_open_link_up(1)[OF up, of E now] obtain es where
    "trace s1 = trace s @ es"
    "sends es = map (Pair w) (subscriptionEvents s) @ map (Pair w) (disconnectEventBuffer s)"
    unfolding s1_def f0 by blast
  then have first: "written s s1 =
           map (Pair w) (subscriptionEvents s) @ map (Pair w) (disconnectEventBuffer s)"
    by (simp add: written_extends)
  note rest = on_open_link_up(2,3,4)[OF up, of E now, folded s1_def, unfolded f0]
  have up1: "link_up w (platform_open w s1)"
    using rest(3) by (simp add: platform_open_def link_up_def)
  have f1: "trace (platform_open w s1) = trace s1"
    "subscriptionEvents (platform_open w s1) = subscriptionEvents s"
    "disconnectEventBuffer (platform_open w s1) = []"
    by (simp_all add: platform_open_def rest)
  from on_open_link_up(1)[OF up1, of E later] obtain es' where
    "trace (on_open E later (platform_open w s1)) = trace s1 @ es'"
    "sends es' = map (Pair w) (subscriptionEvents s)"
    unfolding f1 by auto
  then have "written s1 (step E (SocketOpen w later) s1) = map (Pair w) (subscriptionEvents s)"
    by (simp add: step_def written_extends)
  with first rest show ?thesis unfolding st by simp
qed

text \<open>
  C10. In \<^verbatim>\<open>onConnect\<close>, whatever the socket does during the flush: the messages
  written by the flush are a first part of the old buffer, in order, the buffer
  after \<^verbatim>\<open>onConnect\<close> is exactly the rest of the old buffer (the flush started from
  an empty buffer and put back what it could not write), and anything was written
  only if the client was connected when the flush began. A message that is neither
  a subscription nor sendable when \<^verbatim>\<open>sendEvent\<close> is called is appended to the
  buffer and not written. And in every turn of the client, whatever the event:
  each message that is in the buffer before the turn is in the buffer after it or
  was written to a socket during it.
\<close>

theorem flush_keeps_unsent:
  "(\<exists>k \<le> length (disconnectEventBuffer s).
      map snd (written (replaySubscriptions s) (flushDisconnectBuffer (replaySubscriptions s))) =
        take k (disconnectEventBuffer s) \<and>
      disconnectEventBuffer (onConnect E now s) = drop k (disconnectEventBuffer s) \<and>
      (0 < k \<longrightarrow> connected (replaySubscriptions s))) \<and>
   (\<not> connected s \<longrightarrow>
      disconnectEventBuffer (sendEvent E message False s) =
        disconnectEventBuffer s @ [JSON_stringify E message] \<and>
      written s (sendEvent E message False s) = []) \<and>
   (\<forall>ev. mset (disconnectEventBuffer s) \<subseteq>#
           mset (disconnectEventBuffer (step E ev s)) +
           mset (map snd (written s (step E ev s))))"
proof -
  define s1 where "s1 = replaySubscriptions s"
  have b1: "disconnectEventBuffer s1 = disconnectEventBuffer s"
    by (simp add: s1_def replaySubscriptions_def replaySubscriptions_buffer)
  from fold_send_any[of "disconnectEventBuffer s1" "s1\<lparr>disconnectEventBuffer := []\<rparr>"]
  obtain k es where
    k: "k \<le> length (disconnectEventBuffer s1)" and
    t: "trace (flushDisconnectBuffer s1) = trace s1 @ es" and
    w: "map snd (sends es) = take k (disconnectEventBuffer s1)" and
    b: "disconnectEventBuffer (flushDisconnectBuffer s1) = drop k (disconnectEventBuffer s1)" and
    c: "0 < k \<longrightarrow> connected s1"
    by (auto simp: flushDisconnectBuffer_def Let_def)
  have "disconnectEventBuffer (onConnect E now s) = disconnectEventBuffer (flushDisconnectBuffer s1)"
    by (simp add: onConnect_def addEventHandler_def startSendHeartBeat_fields s1_def)
  with k t w b c b1 have
    "k \<le> length (disconnectEventBuffer s) \<and>
      map snd (written s1 (flushDisconnectBuffer s1)) = take k (disconnectEventBuffer s) \<and>
      disconnectEventBuffer (onConnect E now s) = drop k (disconnectEventBuffer s) \<and>
      (0 < k \<longrightarrow> connected s1)"
    by (simp add: written_extends)
  then show ?thesis
    using sendEvent_unconnected[of s E message] step_conserves[of s E] unfolding s1_def by blast
qed

theorem reconnect_replays_then_flushes_witness:
  "socket offline_backlog = Some 0 \<and> writesLeft (sockets offline_backlog 0) = None \<and>
   written offline_backlog (step example_env (SocketOpen 0 100) offline_backlog) =
     [(0, ''{keepAliveMs:0,responseTag:deno-script-api,type:noteSubscriptionRequest}''),
      (0, ''{type:X,requestId:r1}''), (0, ''{type:note}'')] \<and>
   disconnectEventBuffer (step example_env (SocketOpen 0 100) offline_backlog) = []"
proof -
  have h: "socket offline_backlog = Some 0" "writesLeft (sockets offline_backlog 0) = None"
    by (simp_all add: example_defs2 ws_defs2)
  have f: "subscriptionEvents offline_backlog =
      [''{keepAliveMs:0,responseTag:deno-script-api,type:noteSubscriptionRequest}'']"
    "disconnectEventBuffer offline_backlog = [''{type:X,requestId:r1}'', ''{type:note}'']"
    by (simp_all add: example_defs2 ws_defs2)
  show ?thesis
    using reconnect_replays_then_flushes[OF h, where E = example_env and now = 100
        and later = 200] h
    by (simp add: f)
qed

theorem flush_keeps_unsent_witness:
  "connected (replaySubscriptions backlog_flaky) \<and>
   map snd (written (replaySubscriptions backlog_flaky)
              (flushDisconnectBuffer (replaySubscriptions backlog_flaky))) =
     take 1 (disconnectEventBuffer backlog_flaky) \<and>
   disconnectEventBuffer backlog_flaky = [''{type:X,requestId:r1}'', ''{type:note}''] \<and>
   disconnectEventBuffer (onConnect example_env 100 backlog_flaky) = [''{type:note}''] \<and>
   \<not> connected fresh_client \<and>
   disconnectEventBuffer (sendEvent example_env note_event False fresh_client) = [''{type:note}''] \<and>
   written fresh_client (sendEvent example_env note_event False fresh_client) = []"
proof -
  have c: "connected (replaySubscriptions backlog_flaky)"
    by (simp add: example_defs2 ws_defs2 sends_def)
  have w: "map snd (written (replaySubscriptions backlog_flaky)
              (flushDisconnectBuffer (replaySubscriptions backlog_flaky))) = [''{type:X,requestId:r1}'']"
    by (simp add: example_defs2 ws_defs2 sends_def)
  have b: "disconnectEventBuffer backlog_flaky = [''{type:X,requestId:r1}'', ''{type:note}'']"
    by (simp add: example_defs2 ws_defs2)
  have a: "disconnectEventBuffer (onConnect example_env 100 backlog_flaky) = [''{type:note}'']"
    by (simp add: example_defs2 ws_defs2)
  have n: "\<not> connected fresh_client" "disconnectEventBuffer fresh_client = []"
    "JSON_stringify example_env note_event = ''{type:note}''"
    by (simp_all add: example_defs2 ws_defs2)
  show ?thesis
    using flush_keeps_unsent[where s = backlog_flaky and E = example_env and now = 100
        and message = note_event]
      flush_keeps_unsent[where s = fresh_client and E = example_env and now = 100
        and message = note_event] c w b a n
    by simp
qed

section \<open>Properties of the design loader\<close>

lemma notify_fold:
  "fold (\<lambda>consumer d'. mark (Settled consumer (state d')) d') cs d =
     d\<lparr>happened := happened d @ map (\<lambda>c. Settled c (state d)) cs\<rparr>"
  by (induction cs arbitrary: d) (simp_all add: mark_def)

lemma notifyAllDesignConsumers_eq:
  "notifyAllDesignConsumers d =
     d\<lparr>happened := happened d @ map (\<lambda>c. Settled c (state d)) (loadFinishConsumers d),
       loadFinishConsumers := []\<rparr>"
  by (simp add: notifyAllDesignConsumers_def notify_fold)

lemma loadDesign_waits:
  assumes "state d = LOADING" and "loaderIdentifier d \<noteq> Some identifier"
  shows "loadDesign identifier c d = d\<lparr>loadFinishConsumers := loadFinishConsumers d @ [c]\<rparr>"
  using assms by (simp add: loadDesign_def loadDesignInternal_begin_def)

lemma loadDesign_calls_wait:
  assumes "state d = LOADING" and "loaderIdentifier d = Some L" and "L \<notin> fst ` set calls"
  shows "loadDesign_calls calls d =
           d\<lparr>loadFinishConsumers := loadFinishConsumers d @ map snd calls\<rparr>"
  using assms
proof (induction calls arbitrary: d)
  case Nil
  then show ?case by (simp add: loadDesign_calls_def)
next
  case (Cons a calls)
  obtain i c where a: "a = (i, c)" by (cases a)
  with Cons.prems have ne: "loaderIdentifier d \<noteq> Some i" by auto
  have step: "loadDesign i c d = d\<lparr>loadFinishConsumers := loadFinishConsumers d @ [c]\<rparr>"
    using loadDesign_waits[OF Cons.prems(1) ne] .
  have "loadDesign_calls (a # calls) d = loadDesign_calls calls (loadDesign i c d)"
    by (simp add: loadDesign_calls_def a)
  also have "\<dots> = (loadDesign i c d)\<lparr>loadFinishConsumers :=
                      loadFinishConsumers (loadDesign i c d) @ map snd calls\<rparr>"
    using Cons.prems by (intro Cons.IH) (simp_all add: step)
  finally show ?case by (simp add: step a)
qed

lemma loadDesign_leads:
  assumes "state d \<noteq> LOADING"
  shows "loadDesign L c d =
           (d\<lparr>state := LOADING, loaderIdentifier := Some L\<rparr>)
             \<lparr>happened := happened d @ [Fetch c]\<rparr>"
  using assms by (simp add: loadDesign_def loadDesignInternal_begin_def mark_def)

lemma fetches_append: "fetches (xs @ ys) = fetches xs @ fetches ys"
  by (simp add: fetches_def)

lemma fetches_Settled: "fetches (map (\<lambda>c. Settled c st) cs) = []"
  by (induction cs) (simp_all add: fetches_def)

lemma loadDesignInternal_resume_fields:
  "state (loadDesignInternal_resume c data now d) =
     (case data of None \<Rightarrow> ERROR | Some x \<Rightarrow> DONE)"
  "loadFinishConsumers (loadDesignInternal_resume c data now d) = []"
  "happened (loadDesignInternal_resume c data now d) =
     happened d @
     map (\<lambda>w. Settled w (case data of None \<Rightarrow> ERROR | Some x \<Rightarrow> DONE)) (loadFinishConsumers d) @
     [Settled c (case data of None \<Rightarrow> ERROR | Some x \<Rightarrow> DONE)]"
  by (simp_all add: loadDesignInternal_resume_def notifyAllDesignConsumers_eq mark_def Let_def
      split: option.splits)

lemma settled_simps:
  "settled (xs @ ys) = settled xs @ settled ys"
  "settled [Fetch c] = []"
  "settled [Settled c st] = [c]"
  "settled (map (\<lambda>w. Settled w st) ws) = ws"
  "settled (Fetch c # es) = settled es"
  "settled (Settled c st # es) = c # settled es"
  "settled [] = []"
  by (simp_all add: settled_def) (induction ws, simp_all)

lemma fetches_single: "fetches [Fetch c] = [c]" "fetches [Settled c st] = []"
  "fetches (Fetch c # es) = c # fetches es" "fetches (Settled c st # es) = fetches es"
  "fetches [] = []"
  by (simp_all add: fetches_def)

lemma in_flight_started:
  assumes "in_flight es = []" and "c \<notin> set (settled es)"
  shows "in_flight (es @ [Fetch c]) = [c]"
  using assms by (simp add: in_flight_def fetches_append fetches_single settled_simps)

lemma in_flight_finished:
  assumes "in_flight es = []"
  shows "in_flight ((es @ [Fetch c]) @ map (\<lambda>w. Settled w st) ws @ [Settled c st]) = []"
proof -
  have sub: "\<forall>x \<in> set (fetches es). x \<in> set (settled es)"
    using assms by (simp add: in_flight_def filter_empty_conv)
  have f: "fetches ((es @ [Fetch c]) @ map (\<lambda>w. Settled w st) ws @ [Settled c st]) =
             fetches es @ [c]"
    by (simp add: fetches_append fetches_single fetches_Settled)
  have g: "settled ((es @ [Fetch c]) @ map (\<lambda>w. Settled w st) ws @ [Settled c st]) =
             settled es @ ws @ [c]"
    by (simp add: settled_simps)
  show ?thesis
    unfolding in_flight_def f g using sub by (simp add: filter_empty_conv)
qed

lemma designChangeNotify_fetches:
  "happened (designChangeNotify identifier c d) = happened d @ [Fetch c]"
  "state (designChangeNotify identifier c d) = LOADING"
  "loaderIdentifier (designChangeNotify identifier c d) = Some identifier"
  "loadFinishConsumers (designChangeNotify identifier c d) = loadFinishConsumers d"
  by (simp_all add: designChangeNotify_def loadDesign_def loadDesignInternal_begin_def mark_def)

text \<open>
  C2 as stated fails on the code. While call 1 is loading and call 3 waits in the
  queue, a design change notice arrives: its handler sets the state to NONE and calls
  \<^verbatim>\<open>loadDesign\<close> (call 2, under an identity of its own), which starts a second
  fetch while the first is still out. When the first fetch returns, the waiting call
  3 is settled by it although fetch 2 is in flight, and a further call 4 then starts
  a third fetch.
\<close>

theorem design_change_starts_second_fetch:
  "state (loadDesign ''1700000000001_cd34'' 3 loading_ab12) = LOADING \<and>
   in_flight (happened (loadDesign ''1700000000001_cd34'' 3 loading_ab12)) = [1] \<and>
   in_flight (happened
     (designChangeNotify ''1700000000002_ef56'' 2
        (loadDesign ''1700000000001_cd34'' 3 loading_ab12))) = [1, 2] \<and>
   happened
     (loadDesignInternal_resume 1 (Some example_design) 1700000000500
        (designChangeNotify ''1700000000002_ef56'' 2
           (loadDesign ''1700000000001_cd34'' 3 loading_ab12))) =
     [Fetch 1, Fetch 2, Settled 3 DONE, Settled 1 DONE] \<and>
   in_flight (happened
     (loadDesignInternal_resume 1 (Some example_design) 1700000000500
        (designChangeNotify ''1700000000002_ef56'' 2
           (loadDesign ''1700000000001_cd34'' 3 loading_ab12)))) = [2] \<and>
   fetches (happened
     (loadDesign ''1700000000003_gh78'' 4
        (loadDesignInternal_resume 1 (Some example_design) 1700000000500
           (designChangeNotify ''1700000000002_ef56'' 2
              (loadDesign ''1700000000001_cd34'' 3 loading_ab12))))) = [1, 2, 4]"
  by (simp add: loading_ab12_def new_DesignHelper_def loadDesign_def designChangeNotify_def
      loadDesignInternal_begin_def loadDesignInternal_resume_def notifyAllDesignConsumers_def
      mark_def fetches_def settled_def in_flight_def Let_def)

text \<open>
  C2, amended. Let call \<open>c\<close> of \<^verbatim>\<open>loadDesign\<close>, with identity \<open>L\<close>, arrive while the
  state is not LOADING and no fetch is in flight, and let any number of further calls
  of \<^verbatim>\<open>loadDesign\<close> arrive before its fetch returns, each under an identity other
  than \<open>L\<close>, with no design change notice in between. Then call \<open>c\<close> starts one
  fetch; after each of the further calls the fetches started are still that one and
  it is the only fetch in flight; every further call is appended to the queue of
  completion callbacks and the loader stays in LOADING; and when the fetch returns
  (a design: DONE, nothing to load: ERROR) every queued call is settled once, in
  queue order and in that final state, then call \<open>c\<close> itself, the queue is empty
  and no fetch is in flight. A design change notice, in whatever state it arrives,
  makes the state LOADING under the identity of its own call and starts a fetch.
\<close>

theorem concurrent_loads_single_fetch:
  assumes "state d \<noteq> LOADING" and "in_flight (happened d) = []"
    and "c \<notin> set (settled (happened d))" and "L \<notin> fst ` set calls"
  shows "fetches (happened (loadDesign L c d)) = fetches (happened d) @ [c] \<and>
         (\<forall>k \<le> length calls.
            fetches (happened (loadDesign_calls (take k calls) (loadDesign L c d))) =
              fetches (happened d) @ [c] \<and>
            in_flight (happened (loadDesign_calls (take k calls) (loadDesign L c d))) = [c]) \<and>
         loadFinishConsumers (loadDesign_calls calls (loadDesign L c d)) =
           loadFinishConsumers d @ map snd calls \<and>
         state (loadDesign_calls calls (loadDesign L c d)) = LOADING \<and>
         state (loadDesignInternal_resume c data now (loadDesign_calls calls (loadDesign L c d))) =
           (case data of None \<Rightarrow> ERROR | Some x \<Rightarrow> DONE) \<and>
         happened (loadDesignInternal_resume c data now (loadDesign_calls calls (loadDesign L c d))) =
           happened d @ [Fetch c] @
           map (\<lambda>w. Settled w (case data of None \<Rightarrow> ERROR | Some x \<Rightarrow> DONE))
             (loadFinishConsumers d @ map snd calls) @
           [Settled c (case data of None \<Rightarrow> ERROR | Some x \<Rightarrow> DONE)] \<and>
         loadFinishConsumers
           (loadDesignInternal_resume c data now (loadDesign_calls calls (loadDesign L c d))) = [] \<and>
         fetches (happened
           (loadDesignInternal_resume c data now (loadDesign_calls calls (loadDesign L c d)))) =
           fetches (happened d) @ [c] \<and>
         in_flight (happened
           (loadDesignInternal_resume c data now (loadDesign_calls calls (loadDesign L c d)))) = [] \<and>
         happened (designChangeNotify notice n d') = happened d' @ [Fetch n] \<and>
         state (designChangeNotify notice n d') = LOADING \<and>
         loaderIdentifier (designChangeNotify notice n d') = Some notice"
proof -
  let ?d1 = "loadDesign L c d"
  have d1: "state ?d1 = LOADING" "loaderIdentifier ?d1 = Some L"
    "happened ?d1 = happened d @ [Fetch c]" "loadFinishConsumers ?d1 = loadFinishConsumers d"
    by (simp_all add: loadDesign_leads[OF assms(1)])
  have pre: "loadDesign_calls (take k calls) ?d1 =
               ?d1\<lparr>loadFinishConsumers := loadFinishConsumers ?d1 @ map snd (take k calls)\<rparr>" for k
  proof (rule loadDesign_calls_wait[OF d1(1) d1(2)])
    show "L \<notin> fst ` set (take k calls)"
      using assms(4) by (auto dest: in_set_takeD)
  qed
  have all: "loadDesign_calls calls ?d1 =
               ?d1\<lparr>loadFinishConsumers := loadFinishConsumers ?d1 @ map snd calls\<rparr>"
    using pre[of "length calls"] by simp
  note one = in_flight_started[OF assms(2,3)]
  have fin: "in_flight (happened
      (loadDesignInternal_resume c data now (loadDesign_calls calls ?d1))) = []"
  proof -
    have "happened (loadDesignInternal_resume c data now (loadDesign_calls calls ?d1)) =
        (happened d @ [Fetch c]) @
        map (\<lambda>w. Settled w (case data of None \<Rightarrow> ERROR | Some x \<Rightarrow> DONE))
          (loadFinishConsumers d @ map snd calls) @
        [Settled c (case data of None \<Rightarrow> ERROR | Some x \<Rightarrow> DONE)]"
      by (simp add: loadDesignInternal_resume_fields all d1)
    then show ?thesis
      by (simp only: in_flight_finished[OF assms(2)])
  qed
  show ?thesis
    unfolding fin
    by (simp add: pre all d1 loadDesignInternal_resume_fields fetches_append fetches_Settled
        one designChangeNotify_fetches)
       (simp add: fetches_def)
qed

theorem concurrent_loads_single_fetch_witness:
  "state new_DesignHelper \<noteq> LOADING \<and>
   in_flight (happened new_DesignHelper) = [] \<and>
   1 \<notin> set (settled (happened new_DesignHelper)) \<and>
   ''1700000000000_ab12'' \<notin>
     fst ` set [(''1700000000001_cd34'', 2::nat), (''1700000000002_ef56'', 3)] \<and>
   loadFinishConsumers
     (loadDesign_calls [(''1700000000001_cd34'', 2), (''1700000000002_ef56'', 3)]
        (loadDesign ''1700000000000_ab12'' 1 new_DesignHelper)) = [2, 3] \<and>
   in_flight (happened
     (loadDesign_calls [(''1700000000001_cd34'', 2), (''1700000000002_ef56'', 3)]
        (loadDesign ''1700000000000_ab12'' 1 new_DesignHelper))) = [1] \<and>
   happened
     (loadDesignInternal_resume 1 (Some example_design) 1700000000500
        (loadDesign_calls [(''1700000000001_cd34'', 2), (''1700000000002_ef56'', 3)]
           (loadDesign ''1700000000000_ab12'' 1 new_DesignHelper))) =
     [Fetch 1, Settled 2 DONE, Settled 3 DONE, Settled 1 DONE] \<and>
   in_flight (happened
     (loadDesignInternal_resume 1 (Some example_design) 1700000000500
        (loadDesign_calls [(''1700000000001_cd34'', 2), (''1700000000002_ef56'', 3)]
           (loadDesign ''1700000000000_ab12'' 1 new_DesignHelper)))) = []"
proof -
  let ?calls = "[(''1700000000001_cd34'', 2::nat), (''1700000000002_ef56'', 3)]"
  have h1: "state new_DesignHelper \<noteq> LOADING"
    by (simp add: new_DesignHelper_def)
  have h2: "in_flight (happened new_DesignHelper) = []"
    by (simp add: new_DesignHelper_def in_flight_def fetches_def settled_def)
  have h3: "1 \<notin> set (settled (happened new_DesignHelper))"
    by (simp add: new_DesignHelper_def settled_def)
  have h4: "''1700000000000_ab12'' \<notin> fst ` set ?calls"
    by simp
  have f: "happened new_DesignHelper = []" "loadFinishConsumers new_DesignHelper = []"
    by (simp_all add: new_DesignHelper_def)
  note T = concurrent_loads_single_fetch[OF h1 h2 h3 h4, where data = "Some example_design"
        and now = 1700000000500 and notice = "''1700000000003_gh78''" and n = 4
        and d' = new_DesignHelper]
  have k: "length ?calls \<le> length ?calls" by simp
  note K = T[THEN conjunct2, THEN conjunct1, THEN spec, THEN mp, OF k, THEN conjunct2]
  note Q = T[THEN conjunct2, THEN conjunct2, THEN conjunct1]
  note H = T[THEN conjunct2, THEN conjunct2, THEN conjunct2, THEN conjunct2, THEN conjunct2,
      THEN conjunct1]
  note F = T[THEN conjunct2, THEN conjunct2, THEN conjunct2, THEN conjunct2, THEN conjunct2,
      THEN conjunct2, THEN conjunct2, THEN conjunct2, THEN conjunct1]
  have 1: "in_flight (happened (loadDesign_calls ?calls
      (loadDesign ''1700000000000_ab12'' 1 new_DesignHelper))) = [1]"
    using K by simp
  have 2: "loadFinishConsumers (loadDesign_calls ?calls
      (loadDesign ''1700000000000_ab12'' 1 new_DesignHelper)) = [2, 3]"
    using Q by (simp add: f)
  have 3: "happened (loadDesignInternal_resume 1 (Some example_design) 1700000000500
      (loadDesign_calls ?calls (loadDesign ''1700000000000_ab12'' 1 new_DesignHelper))) =
      [Fetch 1, Settled 2 DONE, Settled 3 DONE, Settled 1 DONE]"
    using H by (simp add: f)
  show ?thesis
    using h1 h2 h3 h4 1 2 3 F by simp
qed

text \<open>
  C5 as stated fails: a call under the identity of the loader at work starts a second
  fetch.
\<close>

theorem same_identity_load_counterexample:
  "state loading_ab12 = LOADING \<and>
   loaderIdentifier loading_ab12 = Some ''1700000000000_ab12'' \<and>
   fetches (happened loading_ab12) = [1] \<and>
   fetches (happened (loadDesign ''1700000000000_ab12'' 2 loading_ab12)) = [1, 2]"
  by (simp add: loading_ab12_def new_DesignHelper_def loadDesign_def
      loadDesignInternal_begin_def mark_def fetches_def)

text \<open>
  C5, amended. A call of \<^verbatim>\<open>loadDesign\<close> that arrives while the state is LOADING is
  not put on the queue when its identity is that of the loader at work: it goes on
  as the loader, the state and the identity stay as they are, and it starts a new
  remote fetch. A call under any other identity is appended to the queue, starts no
  fetch and changes nothing else.
\<close>

theorem load_while_loading:
  assumes "state d = LOADING"
  shows "if loaderIdentifier d = Some identifier
         then loadFinishConsumers (loadDesign identifier c d) = loadFinishConsumers d \<and>
              happened (loadDesign identifier c d) = happened d @ [Fetch c] \<and>
              state (loadDesign identifier c d) = LOADING \<and>
              loaderIdentifier (loadDesign identifier c d) = Some identifier
         else loadFinishConsumers (loadDesign identifier c d) = loadFinishConsumers d @ [c] \<and>
              happened (loadDesign identifier c d) = happened d \<and>
              state (loadDesign identifier c d) = LOADING \<and>
              loaderIdentifier (loadDesign identifier c d) = loaderIdentifier d"
  using assms by (simp add: loadDesign_def loadDesignInternal_begin_def mark_def)

theorem load_while_loading_witness:
  "state loading_ab12 = LOADING \<and>
   loadFinishConsumers (loadDesign ''1700000000000_ab12'' 2 loading_ab12) = [] \<and>
   happened (loadDesign ''1700000000000_ab12'' 2 loading_ab12) = [Fetch 1, Fetch 2] \<and>
   loadFinishConsumers (loadDesign ''1700000000001_cd34'' 3 loading_ab12) = [3] \<and>
   happened (loadDesign ''1700000000001_cd34'' 3 loading_ab12) = [Fetch 1]"
proof -
  have h: "state loading_ab12 = LOADING"
    by (simp add: loading_ab12_def new_DesignHelper_def loadDesign_def
        loadDesignInternal_begin_def mark_def)
  have f: "loaderIdentifier loading_ab12 = Some ''1700000000000_ab12''"
    "loadFinishConsumers loading_ab12 = []" "happened loading_ab12 = [Fetch 1]"
    by (simp_all add: loading_ab12_def new_DesignHelper_def loadDesign_def
        loadDesignInternal_begin_def mark_def)
  show ?thesis
    using load_while_loading[OF h, of "''1700000000000_ab12''" 2]
      load_while_loading[OF h, of "''1700000000001_cd34''" 3] h
    by (simp add: f)
qed

end
